theory Spec2Isabelle
  imports Main
begin

section \<open>Data model\<close>

text \<open>
  Modelled from the spec: the classes \<^verbatim>\<open>Course\<close>, \<^verbatim>\<open>Lab\<close>, \<^verbatim>\<open>Task\<close>, \<^verbatim>\<open>Step\<close> of
  \<^verbatim>\<open>app.models.item\<close> are imported by \<^verbatim>\<open>item_service.py\<close> but their declarations are
  not part of the sources. The spec gives a strict four-level tree: every node has a
  string id, a Course has an ordered sequence of Labs, a Lab of Tasks, a Task of Steps,
  and a Step is a leaf. The service reads no other field.
\<close>

datatype step = Step (step_ident: string)

datatype task = Task (task_ident: string) (steps: "step list")

datatype lab = Lab (lab_ident: string) (tasks: "task list")

datatype course = Course (course_ident: string) (labs: "lab list")

text \<open>
  Modelled from the spec: the base class \<^verbatim>\<open>Item\<close>. The generic functions of the service
  are bounded by \<^verbatim>\<open>T: Item\<close> and dispatch on the concrete class at run time, so an
  item is the tagged union of the four node kinds.
\<close>

datatype item = CourseItem course | LabItem lab | TaskItem task | StepItem step

fun ident :: "item \<Rightarrow> string" where
  "ident (CourseItem c) = course_ident c"
| "ident (LabItem l) = lab_ident l"
| "ident (TaskItem t) = task_ident t"
| "ident (StepItem s) = step_ident s"

text \<open>
  Modelled from the spec: \<^verbatim>\<open>Order\<close>, \<^verbatim>\<open>PreOrder\<close>, \<^verbatim>\<open>PostOrder\<close> of
  \<^verbatim>\<open>app.models.order\<close>, a closed union of two variants.
\<close>

datatype Order = PreOrder | PostOrder

text \<open>The dataclass \<^verbatim>\<open>FoundItem\<close>: the matched node and the number of nodes visited.\<close>

datatype FoundItem = FoundItem (item: item) (visited_nodes: int)

section \<open>Path lookup\<close>

text \<open>
  \<^verbatim>\<open>find_by_id[T: Item](items, item_id)\<close>: the bound \<^verbatim>\<open>T: Item\<close> only provides the
  attribute \<^verbatim>\<open>id\<close>, which the model passes as the accessor \<open>get_id\<close>. The loop returns
  at the first element whose id equals \<open>item_id\<close> and falls through to \<open>None\<close>.
\<close>

fun find_by_id :: "('a \<Rightarrow> string) \<Rightarrow> 'a list \<Rightarrow> string \<Rightarrow> 'a option" where
  "find_by_id get_id [] item_id = None"
| "find_by_id get_id (x # items) item_id =
     (if get_id x = item_id then Some x else find_by_id get_id items item_id)"

definition get_course_by_id :: "course list \<Rightarrow> string \<Rightarrow> course option" where
  "get_course_by_id courses course_id = find_by_id course_ident courses course_id"

definition get_lab_by_id :: "course \<Rightarrow> string \<Rightarrow> lab option" where
  "get_lab_by_id course lab_id = find_by_id lab_ident (labs course) lab_id"

definition get_task_by_id :: "lab \<Rightarrow> string \<Rightarrow> task option" where
  "get_task_by_id lab task_id = find_by_id task_ident (tasks lab) task_id"

definition get_step_by_id :: "task \<Rightarrow> string \<Rightarrow> step option" where
  "get_step_by_id task step_id = find_by_id step_ident (steps task) step_id"

definition get_course_by_path :: "course list \<Rightarrow> string \<Rightarrow> course option" where
  "get_course_by_path courses course_id = get_course_by_id courses course_id"

definition get_lab_by_path :: "course list \<Rightarrow> string \<Rightarrow> string \<Rightarrow> lab option" where
  "get_lab_by_path courses course_id lab_id =
     (case get_course_by_path courses course_id of
        Some course \<Rightarrow> get_lab_by_id course lab_id
      | None \<Rightarrow> None)"

definition get_task_by_path ::
  "course list \<Rightarrow> string \<Rightarrow> string \<Rightarrow> string \<Rightarrow> task option" where
  "get_task_by_path courses course_id lab_id task_id =
     (case get_lab_by_path courses course_id lab_id of
        Some lab \<Rightarrow> get_task_by_id lab task_id
      | None \<Rightarrow> None)"

definition get_step_by_path ::
  "course list \<Rightarrow> string \<Rightarrow> string \<Rightarrow> string \<Rightarrow> string \<Rightarrow> step option" where
  "get_step_by_path courses course_id lab_id task_id step_id =
     (case get_task_by_path courses course_id lab_id task_id of
        Some task \<Rightarrow> get_step_by_id task step_id
      | None \<Rightarrow> None)"

section \<open>Full-tree search, iterative\<close>

text \<open>
  The four nested \<^verbatim>\<open>for\<close> loops of the PreOrder branch, innermost first. Each loop
  takes the current value of \<^verbatim>\<open>counter\<close> and yields the value returned from inside
  the loop, if any, together with the counter. A \<^verbatim>\<open>return\<close> in an inner loop leaves
  every enclosing loop.
\<close>

fun iter_steps :: "step list \<Rightarrow> string \<Rightarrow> int \<Rightarrow> FoundItem option \<times> int" where
  "iter_steps [] item_id counter = (None, counter)"
| "iter_steps (s # ss) item_id counter =
     (let counter = counter + 1 in
      if step_ident s = item_id then (Some (FoundItem (StepItem s) counter), counter)
      else iter_steps ss item_id counter)"

fun iter_tasks :: "task list \<Rightarrow> string \<Rightarrow> int \<Rightarrow> FoundItem option \<times> int" where
  "iter_tasks [] item_id counter = (None, counter)"
| "iter_tasks (t # ts) item_id counter =
     (let counter = counter + 1 in
      if task_ident t = item_id then (Some (FoundItem (TaskItem t) counter), counter)
      else case iter_steps (steps t) item_id counter of
             (Some found, counter) \<Rightarrow> (Some found, counter)
           | (None, counter) \<Rightarrow> iter_tasks ts item_id counter)"

fun iter_labs :: "lab list \<Rightarrow> string \<Rightarrow> int \<Rightarrow> FoundItem option \<times> int" where
  "iter_labs [] item_id counter = (None, counter)"
| "iter_labs (l # ls) item_id counter =
     (let counter = counter + 1 in
      if lab_ident l = item_id then (Some (FoundItem (LabItem l) counter), counter)
      else case iter_tasks (tasks l) item_id counter of
             (Some found, counter) \<Rightarrow> (Some found, counter)
           | (None, counter) \<Rightarrow> iter_labs ls item_id counter)"

fun iter_courses :: "course list \<Rightarrow> string \<Rightarrow> int \<Rightarrow> FoundItem option \<times> int" where
  "iter_courses [] item_id counter = (None, counter)"
| "iter_courses (c # cs) item_id counter =
     (let counter = counter + 1 in
      if course_ident c = item_id then (Some (FoundItem (CourseItem c) counter), counter)
      else case iter_labs (labs c) item_id counter of
             (Some found, counter) \<Rightarrow> (Some found, counter)
           | (None, counter) \<Rightarrow> iter_courses cs item_id counter)"

text \<open>
  The body of \<^verbatim>\<open>get_item_by_id_dfs_iterative\<close> with the final counter kept:
  \<^verbatim>\<open>counter = 0\<close>, then the \<^verbatim>\<open>match\<close> on the order. The PostOrder case is \<^verbatim>\<open>pass\<close>
  and control reaches \<^verbatim>\<open>return None\<close>.
\<close>

definition dfs_iterative_run ::
  "course list \<Rightarrow> string \<Rightarrow> Order \<Rightarrow> FoundItem option \<times> int" where
  "dfs_iterative_run courses item_id order =
     (let counter = 0 in
      case order of
        PreOrder \<Rightarrow> iter_courses courses item_id counter
      | PostOrder \<Rightarrow> (None, counter))"

definition get_item_by_id_dfs_iterative ::
  "course list \<Rightarrow> string \<Rightarrow> Order \<Rightarrow> FoundItem option" where
  "get_item_by_id_dfs_iterative courses item_id order =
     fst (dfs_iterative_run courses item_id order)"

section \<open>Full-tree search, recursive\<close>

text \<open>Number of nodes of a subtree and of a list of subtrees.\<close>

definition task_nodes :: "task \<Rightarrow> nat" where
  "task_nodes t = 1 + length (steps t)"

definition lab_nodes :: "lab \<Rightarrow> nat" where
  "lab_nodes l = 1 + sum_list (map task_nodes (tasks l))"

definition course_nodes :: "course \<Rightarrow> nat" where
  "course_nodes c = 1 + sum_list (map lab_nodes (labs c))"

fun item_nodes :: "item \<Rightarrow> nat" where
  "item_nodes (CourseItem c) = course_nodes c"
| "item_nodes (LabItem l) = lab_nodes l"
| "item_nodes (TaskItem t) = task_nodes t"
| "item_nodes (StepItem s) = 1"

definition total_nodes :: "item list \<Rightarrow> nat" where
  "total_nodes items = sum_list (map item_nodes items)"

definition forest_nodes :: "course list \<Rightarrow> nat" where
  "forest_nodes courses = sum_list (map course_nodes courses)"

lemma total_nodes_simps [simp]:
  "total_nodes [] = 0"
  "total_nodes (x # xs) = item_nodes x + total_nodes xs"
  "total_nodes (map StepItem ss) = length ss"
  "total_nodes (map TaskItem ts) = sum_list (map task_nodes ts)"
  "total_nodes (map LabItem ls) = sum_list (map lab_nodes ls)"
  "total_nodes (map CourseItem cs) = forest_nodes cs"
  by (simp_all add: total_nodes_def forest_nodes_def comp_def sum_list_triv)

lemma item_nodes_pos: "0 < item_nodes x"
  by (cases x) (simp_all add: course_nodes_def lab_nodes_def task_nodes_def)

text \<open>
  The inner function \<^verbatim>\<open>get_item_by_id_dfs_recursive_\<close>. The \<^verbatim>\<open>nonlocal\<close> variable
  \<^verbatim>\<open>visited_nodes\<close> is threaded through: it is an argument and the second component
  of the result. The inner \<^verbatim>\<open>case\<close> on the item is \<^verbatim>\<open>go_items\<close>: a Step returns
  \<^verbatim>\<open>None\<close> without a recursive call.
\<close>

function get_item_by_id_dfs_recursive_inner ::
  "item list \<Rightarrow> string \<Rightarrow> Order \<Rightarrow> int \<Rightarrow> FoundItem option \<times> int" where
  "get_item_by_id_dfs_recursive_inner [] item_id order visited = (None, visited)"
| "get_item_by_id_dfs_recursive_inner (x # items) item_id order visited =
     (let visited = (case order of PreOrder \<Rightarrow> visited + 1 | PostOrder \<Rightarrow> visited) in
      if order = PreOrder \<and> ident x = item_id then (Some (FoundItem x visited), visited)
      else
        case (case x of
                CourseItem c \<Rightarrow>
                  get_item_by_id_dfs_recursive_inner (map LabItem (labs c)) item_id order visited
              | LabItem l \<Rightarrow>
                  get_item_by_id_dfs_recursive_inner (map TaskItem (tasks l)) item_id order visited
              | TaskItem t \<Rightarrow>
                  get_item_by_id_dfs_recursive_inner (map StepItem (steps t)) item_id order visited
              | StepItem s \<Rightarrow> (None, visited)) of
          (Some go_items, visited) \<Rightarrow> (Some go_items, visited)
        | (None, visited) \<Rightarrow>
            (let visited = (case order of PostOrder \<Rightarrow> visited + 1 | PreOrder \<Rightarrow> visited) in
             if order = PostOrder \<and> ident x = item_id
             then (Some (FoundItem x visited), visited)
             else get_item_by_id_dfs_recursive_inner items item_id order visited))"
  by pat_completeness auto
termination
  by (relation "measure (\<lambda>(items, item_id, order, visited). total_nodes items)")
     (auto simp: course_nodes_def lab_nodes_def task_nodes_def item_nodes_pos)

definition dfs_recursive_run ::
  "item list \<Rightarrow> string \<Rightarrow> Order \<Rightarrow> FoundItem option \<times> int" where
  "dfs_recursive_run items item_id order =
     (let visited_nodes = 0 in
      get_item_by_id_dfs_recursive_inner items item_id order visited_nodes)"

definition get_item_by_id_dfs_recursive ::
  "item list \<Rightarrow> string \<Rightarrow> Order \<Rightarrow> FoundItem option" where
  "get_item_by_id_dfs_recursive items item_id order =
     fst (dfs_recursive_run items item_id order)"

section \<open>Entry point\<close>

text \<open>
  \<^verbatim>\<open>get_item_by_id\<close> first calls \<^verbatim>\<open>read_courses()\<close>, which opens and validates a file.
  The outcome of that call is the argument \<open>read_courses\<close>: either an exception
  (\<open>Inl\<close>), which \<^verbatim>\<open>get_item_by_id\<close> does not catch, or the loaded forest (\<open>Inr\<close>).
\<close>

definition get_item_by_id ::
  "'e + course list \<Rightarrow> string \<Rightarrow> Order \<Rightarrow> 'e + FoundItem option" where
  "get_item_by_id read_courses item_id order =
     (case read_courses of
        Inl e \<Rightarrow> Inl e
      | Inr courses \<Rightarrow> Inr (get_item_by_id_dfs_iterative courses item_id order))"

section \<open>Depth-bounded recursion\<close>

text \<open>
  The recursive search with a budget of nested activations of
  \<^verbatim>\<open>get_item_by_id_dfs_recursive_\<close>: every call consumes one unit, the \<^verbatim>\<open>for\<close> loop
  continues inside the same activation, and \<open>None\<close> says that the budget ran out.
  Apart from the budget the equations are those of
  \<^const>\<open>get_item_by_id_dfs_recursive_inner\<close>.
\<close>

fun dfs_bounded ::
  "nat \<Rightarrow> item list \<Rightarrow> string \<Rightarrow> Order \<Rightarrow> int \<Rightarrow> (FoundItem option \<times> int) option" where
  "dfs_bounded 0 items item_id order visited = None"
| "dfs_bounded (Suc d) [] item_id order visited = Some (None, visited)"
| "dfs_bounded (Suc d) (x # items) item_id order visited =
     (let visited = (case order of PreOrder \<Rightarrow> visited + 1 | PostOrder \<Rightarrow> visited) in
      if order = PreOrder \<and> ident x = item_id then Some (Some (FoundItem x visited), visited)
      else
        case (case x of
                CourseItem c \<Rightarrow> dfs_bounded d (map LabItem (labs c)) item_id order visited
              | LabItem l \<Rightarrow> dfs_bounded d (map TaskItem (tasks l)) item_id order visited
              | TaskItem t \<Rightarrow> dfs_bounded d (map StepItem (steps t)) item_id order visited
              | StepItem s \<Rightarrow> Some (None, visited)) of
          None \<Rightarrow> None
        | Some (Some go_items, visited) \<Rightarrow> Some (Some go_items, visited)
        | Some (None, visited) \<Rightarrow>
            (let visited = (case order of PostOrder \<Rightarrow> visited + 1 | PreOrder \<Rightarrow> visited) in
             if order = PostOrder \<and> ident x = item_id
             then Some (Some (FoundItem x visited), visited)
             else dfs_bounded (Suc d) items item_id order visited))"

section \<open>Vocabulary of the properties\<close>

text \<open>The ids of a subtree in pre-order, and of a forest.\<close>

definition task_ids :: "task \<Rightarrow> string list" where
  "task_ids t = task_ident t # map step_ident (steps t)"

definition lab_ids :: "lab \<Rightarrow> string list" where
  "lab_ids l = lab_ident l # concat (map task_ids (tasks l))"

definition course_ids :: "course \<Rightarrow> string list" where
  "course_ids c = course_ident c # concat (map lab_ids (labs c))"

definition forest_ids :: "course list \<Rightarrow> string list" where
  "forest_ids courses = concat (map course_ids courses)"

text \<open>
  The list that \<^verbatim>\<open>go_items\<close> searches for an item. A Step has none: \<^verbatim>\<open>go_items\<close>
  is \<^verbatim>\<open>None\<close> there and the counter is unchanged, which is also the result of the
  search on the empty list.
\<close>

fun children :: "item \<Rightarrow> item list" where
  "children (CourseItem c) = map LabItem (labs c)"
| "children (LabItem l) = map TaskItem (tasks l)"
| "children (TaskItem t) = map StepItem (steps t)"
| "children (StepItem s) = []"

section \<open>The searches on an object store\<close>

text \<open>
  A second embedding of the same functions, in which the forest is not a value but lives
  in a store of Python objects: a list object holds references, a node object holds its
  id and a reference to the list of its children. Every function takes the store and
  returns it with its result, so that what a call does to the caller's objects is part of
  what the function computes. An attribute that the object at hand does not have, or an
  iteration over something that is not a list, is an exception.
\<close>

type_synonym addr = nat

datatype obj =
    ListObj "addr list"
  | CourseObj string addr
  | LabObj string addr
  | TaskObj string addr
  | StepObj string

type_synonym store = "addr \<Rightarrow> obj option"

datatype exn = AttributeError | TypeError | RecursionError

text \<open>
  The reads the service performs: \<^verbatim>\<open>for x in xs\<close> (the elements of a list object),
  \<^verbatim>\<open>x.id\<close>, \<^verbatim>\<open>x.labs\<close>, \<^verbatim>\<open>x.tasks\<close>, \<^verbatim>\<open>x.steps\<close>. The source contains no attribute
  assignment, no \<^verbatim>\<open>del\<close> and no call of a list method, so there is no write.
\<close>

fun load_list :: "addr \<Rightarrow> store \<Rightarrow> (exn + addr list) \<times> store" where
  "load_list a \<sigma> = (case \<sigma> a of Some (ListObj as) \<Rightarrow> (Inr as, \<sigma>) | _ \<Rightarrow> (Inl TypeError, \<sigma>))"

fun load_id :: "addr \<Rightarrow> store \<Rightarrow> (exn + string) \<times> store" where
  "load_id a \<sigma> =
     (case \<sigma> a of
        Some (CourseObj i _) \<Rightarrow> (Inr i, \<sigma>)
      | Some (LabObj i _) \<Rightarrow> (Inr i, \<sigma>)
      | Some (TaskObj i _) \<Rightarrow> (Inr i, \<sigma>)
      | Some (StepObj i) \<Rightarrow> (Inr i, \<sigma>)
      | _ \<Rightarrow> (Inl AttributeError, \<sigma>))"

fun load_labs :: "addr \<Rightarrow> store \<Rightarrow> (exn + addr) \<times> store" where
  "load_labs a \<sigma> =
     (case \<sigma> a of Some (CourseObj _ ls) \<Rightarrow> (Inr ls, \<sigma>) | _ \<Rightarrow> (Inl AttributeError, \<sigma>))"

fun load_tasks :: "addr \<Rightarrow> store \<Rightarrow> (exn + addr) \<times> store" where
  "load_tasks a \<sigma> =
     (case \<sigma> a of Some (LabObj _ ts) \<Rightarrow> (Inr ts, \<sigma>) | _ \<Rightarrow> (Inl AttributeError, \<sigma>))"

fun load_steps :: "addr \<Rightarrow> store \<Rightarrow> (exn + addr) \<times> store" where
  "load_steps a \<sigma> =
     (case \<sigma> a of Some (TaskObj _ ss) \<Rightarrow> (Inr ss, \<sigma>) | _ \<Rightarrow> (Inl AttributeError, \<sigma>))"

text \<open>\<^verbatim>\<open>find_by_id\<close> and the id and path lookups; a found item is returned by reference.\<close>

fun find_loop :: "addr list \<Rightarrow> string \<Rightarrow> store \<Rightarrow> (exn + addr option) \<times> store" where
  "find_loop [] item_id \<sigma> = (Inr None, \<sigma>)"
| "find_loop (a # as) item_id \<sigma> =
     (case load_id a \<sigma> of
        (Inl e, \<sigma>) \<Rightarrow> (Inl e, \<sigma>)
      | (Inr i, \<sigma>) \<Rightarrow> if i = item_id then (Inr (Some a), \<sigma>) else find_loop as item_id \<sigma>)"

definition find_by_id_store :: "addr \<Rightarrow> string \<Rightarrow> store \<Rightarrow> (exn + addr option) \<times> store" where
  "find_by_id_store items item_id \<sigma> =
     (case load_list items \<sigma> of
        (Inl e, \<sigma>) \<Rightarrow> (Inl e, \<sigma>)
      | (Inr as, \<sigma>) \<Rightarrow> find_loop as item_id \<sigma>)"

definition get_course_by_id_store ::
  "addr \<Rightarrow> string \<Rightarrow> store \<Rightarrow> (exn + addr option) \<times> store" where
  "get_course_by_id_store courses course_id \<sigma> = find_by_id_store courses course_id \<sigma>"

definition get_lab_by_id_store ::
  "addr \<Rightarrow> string \<Rightarrow> store \<Rightarrow> (exn + addr option) \<times> store" where
  "get_lab_by_id_store course lab_id \<sigma> =
     (case load_labs course \<sigma> of
        (Inl e, \<sigma>) \<Rightarrow> (Inl e, \<sigma>)
      | (Inr ls, \<sigma>) \<Rightarrow> find_by_id_store ls lab_id \<sigma>)"

definition get_task_by_id_store ::
  "addr \<Rightarrow> string \<Rightarrow> store \<Rightarrow> (exn + addr option) \<times> store" where
  "get_task_by_id_store lab task_id \<sigma> =
     (case load_tasks lab \<sigma> of
        (Inl e, \<sigma>) \<Rightarrow> (Inl e, \<sigma>)
      | (Inr ts, \<sigma>) \<Rightarrow> find_by_id_store ts task_id \<sigma>)"

definition get_step_by_id_store ::
  "addr \<Rightarrow> string \<Rightarrow> store \<Rightarrow> (exn + addr option) \<times> store" where
  "get_step_by_id_store task step_id \<sigma> =
     (case load_steps task \<sigma> of
        (Inl e, \<sigma>) \<Rightarrow> (Inl e, \<sigma>)
      | (Inr ss, \<sigma>) \<Rightarrow> find_by_id_store ss step_id \<sigma>)"

definition get_course_by_path_store ::
  "addr \<Rightarrow> string \<Rightarrow> store \<Rightarrow> (exn + addr option) \<times> store" where
  "get_course_by_path_store courses course_id \<sigma> = get_course_by_id_store courses course_id \<sigma>"

definition get_lab_by_path_store ::
  "addr \<Rightarrow> string \<Rightarrow> string \<Rightarrow> store \<Rightarrow> (exn + addr option) \<times> store" where
  "get_lab_by_path_store courses course_id lab_id \<sigma> =
     (case get_course_by_path_store courses course_id \<sigma> of
        (Inl e, \<sigma>) \<Rightarrow> (Inl e, \<sigma>)
      | (Inr (Some course), \<sigma>) \<Rightarrow> get_lab_by_id_store course lab_id \<sigma>
      | (Inr None, \<sigma>) \<Rightarrow> (Inr None, \<sigma>))"

definition get_task_by_path_store ::
  "addr \<Rightarrow> string \<Rightarrow> string \<Rightarrow> string \<Rightarrow> store \<Rightarrow> (exn + addr option) \<times> store" where
  "get_task_by_path_store courses course_id lab_id task_id \<sigma> =
     (case get_lab_by_path_store courses course_id lab_id \<sigma> of
        (Inl e, \<sigma>) \<Rightarrow> (Inl e, \<sigma>)
      | (Inr (Some lab), \<sigma>) \<Rightarrow> get_task_by_id_store lab task_id \<sigma>
      | (Inr None, \<sigma>) \<Rightarrow> (Inr None, \<sigma>))"

definition get_step_by_path_store ::
  "addr \<Rightarrow> string \<Rightarrow> string \<Rightarrow> string \<Rightarrow> string \<Rightarrow> store
     \<Rightarrow> (exn + addr option) \<times> store" where
  "get_step_by_path_store courses course_id lab_id task_id step_id \<sigma> =
     (case get_task_by_path_store courses course_id lab_id task_id \<sigma> of
        (Inl e, \<sigma>) \<Rightarrow> (Inl e, \<sigma>)
      | (Inr (Some task), \<sigma>) \<Rightarrow> get_step_by_id_store task step_id \<sigma>
      | (Inr None, \<sigma>) \<Rightarrow> (Inr None, \<sigma>))"

text \<open>
  \<^verbatim>\<open>FoundItem\<close> with the item held by reference, and the two statements
  \<^verbatim>\<open>counter += 1; if x.id == item_id: return FoundItem(x, counter)\<close> that the iterative
  loops and both orders of the recursive search share.
\<close>

datatype found_ref = FoundRef (item_ref: addr) (visited_ref: int)

definition visit ::
  "addr \<Rightarrow> string \<Rightarrow> int \<Rightarrow> store \<Rightarrow> (exn + found_ref option \<times> int) \<times> store" where
  "visit x item_id counter \<sigma> =
     (let counter = counter + 1 in
      case load_id x \<sigma> of
        (Inl e, \<sigma>) \<Rightarrow> (Inl e, \<sigma>)
      | (Inr i, \<sigma>) \<Rightarrow>
          if i = item_id then (Inr (Some (FoundRef x counter), counter), \<sigma>)
          else (Inr (None, counter), \<sigma>))"

text \<open>\<^verbatim>\<open>for lab in course.labs\<close> and its siblings: read the attribute, then the list.\<close>

definition iterate_labs :: "addr \<Rightarrow> store \<Rightarrow> (exn + addr list) \<times> store" where
  "iterate_labs course \<sigma> =
     (case load_labs course \<sigma> of
        (Inl e, \<sigma>) \<Rightarrow> (Inl e, \<sigma>)
      | (Inr lst, \<sigma>) \<Rightarrow> load_list lst \<sigma>)"

definition iterate_tasks :: "addr \<Rightarrow> store \<Rightarrow> (exn + addr list) \<times> store" where
  "iterate_tasks lab \<sigma> =
     (case load_tasks lab \<sigma> of
        (Inl e, \<sigma>) \<Rightarrow> (Inl e, \<sigma>)
      | (Inr lst, \<sigma>) \<Rightarrow> load_list lst \<sigma>)"

definition iterate_steps :: "addr \<Rightarrow> store \<Rightarrow> (exn + addr list) \<times> store" where
  "iterate_steps task \<sigma> =
     (case load_steps task \<sigma> of
        (Inl e, \<sigma>) \<Rightarrow> (Inl e, \<sigma>)
      | (Inr lst, \<sigma>) \<Rightarrow> load_list lst \<sigma>)"

fun iter_steps_store ::
  "addr list \<Rightarrow> string \<Rightarrow> int \<Rightarrow> store \<Rightarrow> (exn + found_ref option \<times> int) \<times> store" where
  "iter_steps_store [] item_id counter \<sigma> = (Inr (None, counter), \<sigma>)"
| "iter_steps_store (x # xs) item_id counter \<sigma> =
     (case visit x item_id counter \<sigma> of
        (Inl e, \<sigma>) \<Rightarrow> (Inl e, \<sigma>)
      | (Inr (Some found, counter), \<sigma>) \<Rightarrow> (Inr (Some found, counter), \<sigma>)
      | (Inr (None, counter), \<sigma>) \<Rightarrow> iter_steps_store xs item_id counter \<sigma>)"

fun iter_tasks_store ::
  "addr list \<Rightarrow> string \<Rightarrow> int \<Rightarrow> store \<Rightarrow> (exn + found_ref option \<times> int) \<times> store" where
  "iter_tasks_store [] item_id counter \<sigma> = (Inr (None, counter), \<sigma>)"
| "iter_tasks_store (x # xs) item_id counter \<sigma> =
     (case visit x item_id counter \<sigma> of
        (Inl e, \<sigma>) \<Rightarrow> (Inl e, \<sigma>)
      | (Inr (Some found, counter), \<sigma>) \<Rightarrow> (Inr (Some found, counter), \<sigma>)
      | (Inr (None, counter), \<sigma>) \<Rightarrow>
          case iterate_steps x \<sigma> of
            (Inl e, \<sigma>) \<Rightarrow> (Inl e, \<sigma>)
          | (Inr ys, \<sigma>) \<Rightarrow>
              case iter_steps_store ys item_id counter \<sigma> of
                (Inl e, \<sigma>) \<Rightarrow> (Inl e, \<sigma>)
              | (Inr (Some found, counter), \<sigma>) \<Rightarrow> (Inr (Some found, counter), \<sigma>)
              | (Inr (None, counter), \<sigma>) \<Rightarrow> iter_tasks_store xs item_id counter \<sigma>)"

fun iter_labs_store ::
  "addr list \<Rightarrow> string \<Rightarrow> int \<Rightarrow> store \<Rightarrow> (exn + found_ref option \<times> int) \<times> store" where
  "iter_labs_store [] item_id counter \<sigma> = (Inr (None, counter), \<sigma>)"
| "iter_labs_store (x # xs) item_id counter \<sigma> =
     (case visit x item_id counter \<sigma> of
        (Inl e, \<sigma>) \<Rightarrow> (Inl e, \<sigma>)
      | (Inr (Some found, counter), \<sigma>) \<Rightarrow> (Inr (Some found, counter), \<sigma>)
      | (Inr (None, counter), \<sigma>) \<Rightarrow>
          case iterate_tasks x \<sigma> of
            (Inl e, \<sigma>) \<Rightarrow> (Inl e, \<sigma>)
          | (Inr ys, \<sigma>) \<Rightarrow>
              case iter_tasks_store ys item_id counter \<sigma> of
                (Inl e, \<sigma>) \<Rightarrow> (Inl e, \<sigma>)
              | (Inr (Some found, counter), \<sigma>) \<Rightarrow> (Inr (Some found, counter), \<sigma>)
              | (Inr (None, counter), \<sigma>) \<Rightarrow> iter_labs_store xs item_id counter \<sigma>)"

fun iter_courses_store ::
  "addr list \<Rightarrow> string \<Rightarrow> int \<Rightarrow> store \<Rightarrow> (exn + found_ref option \<times> int) \<times> store" where
  "iter_courses_store [] item_id counter \<sigma> = (Inr (None, counter), \<sigma>)"
| "iter_courses_store (x # xs) item_id counter \<sigma> =
     (case visit x item_id counter \<sigma> of
        (Inl e, \<sigma>) \<Rightarrow> (Inl e, \<sigma>)
      | (Inr (Some found, counter), \<sigma>) \<Rightarrow> (Inr (Some found, counter), \<sigma>)
      | (Inr (None, counter), \<sigma>) \<Rightarrow>
          case iterate_labs x \<sigma> of
            (Inl e, \<sigma>) \<Rightarrow> (Inl e, \<sigma>)
          | (Inr ys, \<sigma>) \<Rightarrow>
              case iter_labs_store ys item_id counter \<sigma> of
                (Inl e, \<sigma>) \<Rightarrow> (Inl e, \<sigma>)
              | (Inr (Some found, counter), \<sigma>) \<Rightarrow> (Inr (Some found, counter), \<sigma>)
              | (Inr (None, counter), \<sigma>) \<Rightarrow> iter_courses_store xs item_id counter \<sigma>)"

definition get_item_by_id_dfs_iterative_store ::
  "addr \<Rightarrow> string \<Rightarrow> Order \<Rightarrow> store \<Rightarrow> (exn + found_ref option) \<times> store" where
  "get_item_by_id_dfs_iterative_store courses item_id order \<sigma> =
     (let counter = 0 in
      case order of
        PreOrder \<Rightarrow>
          (case load_list courses \<sigma> of
             (Inl e, \<sigma>) \<Rightarrow> (Inl e, \<sigma>)
           | (Inr cs, \<sigma>) \<Rightarrow>
               (case iter_courses_store cs item_id counter \<sigma> of
                  (Inl e, \<sigma>) \<Rightarrow> (Inl e, \<sigma>)
                | (Inr (r, counter), \<sigma>) \<Rightarrow> (Inr r, \<sigma>)))
      | PostOrder \<Rightarrow> (Inr None, \<sigma>))"

text \<open>
  The recursive search. \<open>go_target\<close> is the \<^verbatim>\<open>match item\<close> of \<^verbatim>\<open>go_items\<close>: the list
  that \<^verbatim>\<open>go\<close> is called on, or \<open>None\<close> when no recursive call is made (a Step, and an
  object of no node class, for which no \<^verbatim>\<open>case\<close> matches). The first argument of
  \<open>dfs_store\<close> bounds the nested activations, as Python's recursion limit does; the
  store may be cyclic, so the recursion is not bounded by the data.
\<close>

fun load_obj :: "addr \<Rightarrow> store \<Rightarrow> obj option \<times> store" where
  "load_obj a \<sigma> = (\<sigma> a, \<sigma>)"

definition go_target :: "addr \<Rightarrow> store \<Rightarrow> (exn + addr list option) \<times> store" where
  "go_target x \<sigma> =
     (case load_obj x \<sigma> of
        (Some (CourseObj _ lst), \<sigma>) \<Rightarrow>
          (case load_list lst \<sigma> of (Inl e, \<sigma>) \<Rightarrow> (Inl e, \<sigma>) | (Inr ys, \<sigma>) \<Rightarrow> (Inr (Some ys), \<sigma>))
      | (Some (LabObj _ lst), \<sigma>) \<Rightarrow>
          (case load_list lst \<sigma> of (Inl e, \<sigma>) \<Rightarrow> (Inl e, \<sigma>) | (Inr ys, \<sigma>) \<Rightarrow> (Inr (Some ys), \<sigma>))
      | (Some (TaskObj _ lst), \<sigma>) \<Rightarrow>
          (case load_list lst \<sigma> of (Inl e, \<sigma>) \<Rightarrow> (Inl e, \<sigma>) | (Inr ys, \<sigma>) \<Rightarrow> (Inr (Some ys), \<sigma>))
      | (_, \<sigma>) \<Rightarrow> (Inr None, \<sigma>))"

fun dfs_store ::
  "nat \<Rightarrow> addr list \<Rightarrow> string \<Rightarrow> Order \<Rightarrow> int \<Rightarrow> store
     \<Rightarrow> (exn + found_ref option \<times> int) \<times> store" where
  "dfs_store 0 items item_id order visited \<sigma> = (Inl RecursionError, \<sigma>)"
| "dfs_store (Suc d) [] item_id order visited \<sigma> = (Inr (None, visited), \<sigma>)"
| "dfs_store (Suc d) (x # items) item_id order visited \<sigma> =
     (case (case order of
              PreOrder \<Rightarrow> visit x item_id visited \<sigma>
            | PostOrder \<Rightarrow> (Inr (None, visited), \<sigma>)) of
        (Inl e, \<sigma>) \<Rightarrow> (Inl e, \<sigma>)
      | (Inr (Some found, visited), \<sigma>) \<Rightarrow> (Inr (Some found, visited), \<sigma>)
      | (Inr (None, visited), \<sigma>) \<Rightarrow>
          case (case go_target x \<sigma> of
                  (Inl e, \<sigma>) \<Rightarrow> (Inl e, \<sigma>)
                | (Inr (Some ys), \<sigma>) \<Rightarrow> dfs_store d ys item_id order visited \<sigma>
                | (Inr None, \<sigma>) \<Rightarrow> (Inr (None, visited), \<sigma>)) of
            (Inl e, \<sigma>) \<Rightarrow> (Inl e, \<sigma>)
          | (Inr (Some go_items, visited), \<sigma>) \<Rightarrow> (Inr (Some go_items, visited), \<sigma>)
          | (Inr (None, visited), \<sigma>) \<Rightarrow>
              case (case order of
                      PostOrder \<Rightarrow> visit x item_id visited \<sigma>
                    | PreOrder \<Rightarrow> (Inr (None, visited), \<sigma>)) of
                (Inl e, \<sigma>) \<Rightarrow> (Inl e, \<sigma>)
              | (Inr (Some found, visited), \<sigma>) \<Rightarrow> (Inr (Some found, visited), \<sigma>)
              | (Inr (None, visited), \<sigma>) \<Rightarrow>
                  dfs_store (Suc d) items item_id order visited \<sigma>)"

definition get_item_by_id_dfs_recursive_store ::
  "nat \<Rightarrow> addr \<Rightarrow> string \<Rightarrow> Order \<Rightarrow> store \<Rightarrow> (exn + found_ref option) \<times> store" where
  "get_item_by_id_dfs_recursive_store limit items item_id order \<sigma> =
     (let visited_nodes = 0 in
      case load_list items \<sigma> of
        (Inl e, \<sigma>) \<Rightarrow> (Inl e, \<sigma>)
      | (Inr xs, \<sigma>) \<Rightarrow>
          (case dfs_store limit xs item_id order visited_nodes \<sigma> of
             (Inl e, \<sigma>) \<Rightarrow> (Inl e, \<sigma>)
           | (Inr (r, visited_nodes), \<sigma>) \<Rightarrow> (Inr r, \<sigma>)))"

text \<open>
  When a store represents a forest: the object at an address is a node with the id of
  the abstract node, and its list of children holds, in order, addresses that represent
  the children. \<open>found_rep\<close> relates a result by reference to a result by value, and
  \<open>height\<close> is the number of levels below and including an item.
\<close>

definition list_rep :: "(addr \<Rightarrow> 'a \<Rightarrow> bool) \<Rightarrow> store \<Rightarrow> addr \<Rightarrow> 'a list \<Rightarrow> bool" where
  "list_rep R \<sigma> l ys = (case \<sigma> l of Some (ListObj as) \<Rightarrow> list_all2 R as ys | _ \<Rightarrow> False)"

definition step_rep :: "store \<Rightarrow> addr \<Rightarrow> step \<Rightarrow> bool" where
  "step_rep \<sigma> a s = (\<sigma> a = Some (StepObj (step_ident s)))"

definition task_rep :: "store \<Rightarrow> addr \<Rightarrow> task \<Rightarrow> bool" where
  "task_rep \<sigma> a t =
     (case \<sigma> a of
        Some (TaskObj i l) \<Rightarrow> i = task_ident t \<and> list_rep (step_rep \<sigma>) \<sigma> l (steps t)
      | _ \<Rightarrow> False)"

definition lab_rep :: "store \<Rightarrow> addr \<Rightarrow> lab \<Rightarrow> bool" where
  "lab_rep \<sigma> a l =
     (case \<sigma> a of
        Some (LabObj i ts) \<Rightarrow> i = lab_ident l \<and> list_rep (task_rep \<sigma>) \<sigma> ts (tasks l)
      | _ \<Rightarrow> False)"

definition course_rep :: "store \<Rightarrow> addr \<Rightarrow> course \<Rightarrow> bool" where
  "course_rep \<sigma> a c =
     (case \<sigma> a of
        Some (CourseObj i ls) \<Rightarrow> i = course_ident c \<and> list_rep (lab_rep \<sigma>) \<sigma> ls (labs c)
      | _ \<Rightarrow> False)"

fun item_rep :: "store \<Rightarrow> addr \<Rightarrow> item \<Rightarrow> bool" where
  "item_rep \<sigma> a (CourseItem c) = course_rep \<sigma> a c"
| "item_rep \<sigma> a (LabItem l) = lab_rep \<sigma> a l"
| "item_rep \<sigma> a (TaskItem t) = task_rep \<sigma> a t"
| "item_rep \<sigma> a (StepItem s) = step_rep \<sigma> a s"

definition found_rep :: "store \<Rightarrow> found_ref option \<Rightarrow> FoundItem option \<Rightarrow> bool" where
  "found_rep \<sigma> r f =
     (case (r, f) of
        (None, None) \<Rightarrow> True
      | (Some (FoundRef a n), Some (FoundItem x m)) \<Rightarrow> n = m \<and> item_rep \<sigma> a x
      | _ \<Rightarrow> False)"

fun height :: "item \<Rightarrow> nat" where
  "height (CourseItem c) = 4"
| "height (LabItem l) = 3"
| "height (TaskItem t) = 2"
| "height (StepItem s) = 1"

text \<open>A store holding the chain C1, L1, T1, S1 at addresses 1, 3, 5, 7.\<close>

definition chain_store :: store where
  "chain_store = map_of
     [(0, ListObj [1]), (1, CourseObj ''C1'' 2), (2, ListObj [3]), (3, LabObj ''L1'' 4),
      (4, ListObj [5]), (5, TaskObj ''T1'' 6), (6, ListObj [7]), (7, StepObj ''S1'')]"

section \<open>Auxiliary facts\<close>

lemma total_nodes_children: "total_nodes (children x) < item_nodes x"
  by (cases x) (simp_all add: course_nodes_def lab_nodes_def task_nodes_def)

lemma item_list_induct [case_names Nil Cons]:
  assumes "P []" and "\<And>x items. P (children x) \<Longrightarrow> P items \<Longrightarrow> P (x # items)"
  shows "P items"
proof (induction items rule: measure_induct_rule [where f = total_nodes])
  case (less items)
  show ?case
  proof (cases items)
    case Nil
    then show ?thesis using assms(1) by simp
  next
    case (Cons x rest)
    have "total_nodes (children x) < total_nodes items"
      using total_nodes_children [of x] Cons by simp
    moreover have "total_nodes rest < total_nodes items"
      using item_nodes_pos [of x] Cons by simp
    ultimately show ?thesis
      using less assms(2) Cons by blast
  qed
qed

lemma inner_PreOrder:
  "get_item_by_id_dfs_recursive_inner (x # items) item_id PreOrder v =
     (if ident x = item_id then (Some (FoundItem x (v + 1)), v + 1)
      else case get_item_by_id_dfs_recursive_inner (children x) item_id PreOrder (v + 1) of
             (Some f, v2) \<Rightarrow> (Some f, v2)
           | (None, v2) \<Rightarrow> get_item_by_id_dfs_recursive_inner items item_id PreOrder v2)"
  by (cases x) (simp_all add: Let_def split: prod.splits option.splits)

lemma inner_PostOrder:
  "get_item_by_id_dfs_recursive_inner (x # items) item_id PostOrder v =
     (case get_item_by_id_dfs_recursive_inner (children x) item_id PostOrder v of
        (Some f, v2) \<Rightarrow> (Some f, v2)
      | (None, v2) \<Rightarrow>
          if ident x = item_id then (Some (FoundItem x (v2 + 1)), v2 + 1)
          else get_item_by_id_dfs_recursive_inner items item_id PostOrder (v2 + 1))"
  by (cases x) (simp_all add: Let_def split: prod.splits option.splits)

declare get_item_by_id_dfs_recursive_inner.simps(2) [simp del]

lemma inner_bounds:
  "get_item_by_id_dfs_recursive_inner items item_id order v = (r, v') \<Longrightarrow>
     v \<le> v' \<and> v' \<le> v + int (total_nodes items) \<and>
     (\<forall>f. r = Some f \<longrightarrow> ident (item f) = item_id \<and> visited_nodes f = v' \<and> v < v')"
proof (induction items arbitrary: v r v' rule: item_list_induct)
  case Nil
  then show ?case by simp
next
  case (Cons x items)
  have less: "int (total_nodes (children x)) + 1 \<le> int (item_nodes x)"
    using total_nodes_children [of x] by simp
  show ?case
  proof (cases order)
    case PreOrder
    show ?thesis
    proof (cases "ident x = item_id")
      case True
      then show ?thesis using Cons.prems PreOrder item_nodes_pos [of x]
        by (auto simp: inner_PreOrder)
    next
      case False
      obtain r1 v1 where
        c: "get_item_by_id_dfs_recursive_inner (children x) item_id order (v + 1) = (r1, v1)"
        by force
      note ih1 = Cons.IH(1) [OF c]
      show ?thesis
      proof (cases r1)
        case None
        then have "get_item_by_id_dfs_recursive_inner items item_id order v1 = (r, v')"
          using Cons.prems PreOrder False c by (simp add: inner_PreOrder)
        from Cons.IH(2) [OF this] ih1 less show ?thesis by auto
      next
        case (Some f)
        then have "r = Some f" "v' = v1"
          using Cons.prems PreOrder False c by (simp_all add: inner_PreOrder)
        with ih1 Some less show ?thesis by auto
      qed
    qed
  next
    case PostOrder
    obtain r1 v1 where
      c: "get_item_by_id_dfs_recursive_inner (children x) item_id order v = (r1, v1)"
      by force
    note ih1 = Cons.IH(1) [OF c]
    show ?thesis
    proof (cases r1)
      case (Some f)
      then have "r = Some f" "v' = v1"
        using Cons.prems PostOrder c by (simp_all add: inner_PostOrder)
      with ih1 Some less show ?thesis by auto
    next
      case None
      show ?thesis
      proof (cases "ident x = item_id")
        case True
        then have "r = Some (FoundItem x (v1 + 1))" "v' = v1 + 1"
          using Cons.prems PostOrder c None by (auto simp: inner_PostOrder)
        with ih1 True less show ?thesis by auto
      next
        case False
        then have "get_item_by_id_dfs_recursive_inner items item_id order (v1 + 1) = (r, v')"
          using Cons.prems PostOrder c None by (simp add: inner_PostOrder)
        from Cons.IH(2) [OF this] ih1 less show ?thesis by auto
      qed
    qed
  qed
qed

lemma iter_steps_inner:
  "iter_steps ss item_id v =
     get_item_by_id_dfs_recursive_inner (map StepItem ss) item_id PreOrder v"
  by (induction ss arbitrary: v) (simp_all add: inner_PreOrder Let_def)

lemma iter_tasks_inner:
  "iter_tasks ts item_id v =
     get_item_by_id_dfs_recursive_inner (map TaskItem ts) item_id PreOrder v"
  by (induction ts arbitrary: v)
     (simp_all add: inner_PreOrder Let_def iter_steps_inner split: prod.splits option.splits)

lemma iter_labs_inner:
  "iter_labs ls item_id v =
     get_item_by_id_dfs_recursive_inner (map LabItem ls) item_id PreOrder v"
  by (induction ls arbitrary: v)
     (simp_all add: inner_PreOrder Let_def iter_tasks_inner split: prod.splits option.splits)

lemma iter_courses_inner:
  "iter_courses cs item_id v =
     get_item_by_id_dfs_recursive_inner (map CourseItem cs) item_id PreOrder v"
  by (induction cs arbitrary: v)
     (simp_all add: inner_PreOrder Let_def iter_labs_inner split: prod.splits option.splits)

lemma iterative_PreOrder_recursive:
  "get_item_by_id_dfs_iterative courses item_id PreOrder =
     get_item_by_id_dfs_recursive (map CourseItem courses) item_id PreOrder"
  by (simp add: get_item_by_id_dfs_iterative_def dfs_iterative_run_def
        get_item_by_id_dfs_recursive_def dfs_recursive_run_def iter_courses_inner)

text \<open>The iterative PreOrder search misses exactly the ids that do not occur.\<close>

lemma iter_steps_None_iff:
  "fst (iter_steps ss item_id v) = None \<longleftrightarrow> item_id \<notin> step_ident ` set ss"
  by (induction ss arbitrary: v) (auto simp: Let_def)

lemma iter_tasks_None_iff:
  "fst (iter_tasks ts item_id v) = None \<longleftrightarrow> item_id \<notin> set (concat (map task_ids ts))"
proof (induction ts arbitrary: v)
  case Nil
  show ?case by simp
next
  case (Cons t ts)
  show ?case
    using iter_steps_None_iff [of "steps t" item_id "v + 1"] Cons
    by (cases "iter_steps (steps t) item_id (v + 1)")
       (auto simp: Let_def task_ids_def split: option.splits)
qed

lemma iter_labs_None_iff:
  "fst (iter_labs ls item_id v) = None \<longleftrightarrow> item_id \<notin> set (concat (map lab_ids ls))"
proof (induction ls arbitrary: v)
  case Nil
  show ?case by simp
next
  case (Cons l ls)
  show ?case
    using iter_tasks_None_iff [of "tasks l" item_id "v + 1"] Cons
    by (cases "iter_tasks (tasks l) item_id (v + 1)")
       (auto simp: Let_def lab_ids_def split: option.splits)
qed

lemma iter_courses_None_iff:
  "fst (iter_courses cs item_id v) = None \<longleftrightarrow> item_id \<notin> set (forest_ids cs)"
proof (induction cs arbitrary: v)
  case Nil
  show ?case by (simp add: forest_ids_def)
next
  case (Cons c cs)
  show ?case
    using iter_labs_None_iff [of "labs c" item_id "v + 1"] Cons
    by (cases "iter_labs (labs c) item_id (v + 1)")
       (auto simp: Let_def course_ids_def forest_ids_def split: option.splits)
qed

text \<open>A budget of four activations is never exhausted.\<close>

lemma bounded_steps:
  "dfs_bounded (Suc d) (map StepItem ss) item_id order v =
     Some (get_item_by_id_dfs_recursive_inner (map StepItem ss) item_id order v)"
  by (induction ss arbitrary: v)
     (simp_all add: get_item_by_id_dfs_recursive_inner.simps(2) Let_def)

lemma bounded_tasks:
  "dfs_bounded (Suc (Suc d)) (map TaskItem ts) item_id order v =
     Some (get_item_by_id_dfs_recursive_inner (map TaskItem ts) item_id order v)"
proof (induction ts arbitrary: v)
  case Nil
  show ?case by simp
next
  case (Cons t ts)
  show ?case
    using Cons
    by (cases order)
       (simp_all add: get_item_by_id_dfs_recursive_inner.simps(2) Let_def bounded_steps
          split: prod.splits option.splits)
qed

lemma bounded_labs:
  "dfs_bounded (Suc (Suc (Suc d))) (map LabItem ls) item_id order v =
     Some (get_item_by_id_dfs_recursive_inner (map LabItem ls) item_id order v)"
proof (induction ls arbitrary: v)
  case Nil
  show ?case by simp
next
  case (Cons l ls)
  show ?case
    using Cons
    by (cases order)
       (simp_all add: get_item_by_id_dfs_recursive_inner.simps(2) Let_def bounded_tasks
          split: prod.splits option.splits)
qed

lemma bounded_items:
  "dfs_bounded (Suc (Suc (Suc (Suc d)))) items item_id order v =
     Some (get_item_by_id_dfs_recursive_inner items item_id order v)"
proof (induction items arbitrary: v)
  case Nil
  show ?case by simp
next
  case (Cons x items)
  show ?case
    using Cons
    by (cases x; cases order)
       (simp_all add: get_item_by_id_dfs_recursive_inner.simps(2) Let_def
          bounded_steps bounded_tasks bounded_labs split: prod.splits option.splits)
qed

text \<open>Three activations are too few for a chain that reaches a Step.\<close>

lemma bounded_three_exhausted:
  "dfs_bounded 3 [CourseItem (Course ''C1'' [Lab ''L1'' [Task ''T1'' [Step ''S1'']]])]
     ''S1'' order 0 = None"
  by (cases order) (simp_all add: numeral_eq_Suc)

text \<open>The linear scan.\<close>

lemma find_by_id_None_iff:
  "find_by_id get_id items item_id = None \<longleftrightarrow> item_id \<notin> get_id ` set items"
  by (induction items) auto

lemma find_by_id_Some_index:
  "item_id \<in> get_id ` set items \<Longrightarrow>
     \<exists>i<length items. find_by_id get_id items item_id = Some (items ! i)
        \<and> get_id (items ! i) = item_id \<and> (\<forall>j<i. get_id (items ! j) \<noteq> item_id)"
proof (induction items)
  case Nil
  then show ?case by simp
next
  case (Cons x items)
  show ?case
  proof (cases "get_id x = item_id")
    case True
    then have "find_by_id get_id (x # items) item_id = Some ((x # items) ! 0)
        \<and> get_id ((x # items) ! 0) = item_id \<and> (\<forall>j<0. get_id ((x # items) ! j) \<noteq> item_id)"
      by simp
    then show ?thesis by blast
  next
    case False
    with Cons.prems have "item_id \<in> get_id ` set items" by auto
    from Cons.IH [OF this] obtain i where i: "i < length items"
      "find_by_id get_id items item_id = Some (items ! i)"
      "get_id (items ! i) = item_id" "\<forall>j<i. get_id (items ! j) \<noteq> item_id"
      by blast
    have "\<forall>j<Suc i. get_id ((x # items) ! j) \<noteq> item_id"
      using False i(4) by (auto simp: less_Suc_eq_0_disj)
    with i False have "Suc i < length (x # items)
        \<and> find_by_id get_id (x # items) item_id = Some ((x # items) ! Suc i)
        \<and> get_id ((x # items) ! Suc i) = item_id
        \<and> (\<forall>j<Suc i. get_id ((x # items) ! j) \<noteq> item_id)"
      by simp
    then show ?thesis by blast
  qed
qed

text \<open>No function on the store changes it.\<close>

lemma load_frame:
  "load_list a \<sigma> = (r1, \<sigma>1) \<Longrightarrow> \<sigma>1 = \<sigma>"
  "load_id a \<sigma> = (r2, \<sigma>2) \<Longrightarrow> \<sigma>2 = \<sigma>"
  "load_labs a \<sigma> = (r3, \<sigma>3) \<Longrightarrow> \<sigma>3 = \<sigma>"
  "load_tasks a \<sigma> = (r3, \<sigma>4) \<Longrightarrow> \<sigma>4 = \<sigma>"
  "load_steps a \<sigma> = (r3, \<sigma>5) \<Longrightarrow> \<sigma>5 = \<sigma>"
  "load_obj a \<sigma> = (r6, \<sigma>6) \<Longrightarrow> \<sigma>6 = \<sigma>"
  by (auto split: option.splits obj.splits)

declare load_list.simps [simp del] load_id.simps [simp del] load_labs.simps [simp del]
  load_tasks.simps [simp del] load_steps.simps [simp del] load_obj.simps [simp del]

lemma visit_frame: "visit x item_id counter \<sigma> = (r, \<sigma>') \<Longrightarrow> \<sigma>' = \<sigma>"
  by (auto simp: visit_def Let_def split: prod.splits sum.splits if_splits dest: load_frame)

lemma iterate_frame:
  "iterate_labs x \<sigma> = (r1, \<sigma>1) \<Longrightarrow> \<sigma>1 = \<sigma>"
  "iterate_tasks x \<sigma> = (r2, \<sigma>2) \<Longrightarrow> \<sigma>2 = \<sigma>"
  "iterate_steps x \<sigma> = (r3, \<sigma>3) \<Longrightarrow> \<sigma>3 = \<sigma>"
  by (auto simp: iterate_labs_def iterate_tasks_def iterate_steps_def
        split: prod.splits sum.splits dest: load_frame)

lemma go_target_frame: "go_target x \<sigma> = (r, \<sigma>') \<Longrightarrow> \<sigma>' = \<sigma>"
  by (auto simp: go_target_def split: prod.splits sum.splits option.splits obj.splits
        dest: load_frame)

lemma find_loop_frame: "find_loop as item_id \<sigma> = (r, \<sigma>') \<Longrightarrow> \<sigma>' = \<sigma>"
  by (induction as) (auto split: prod.splits sum.splits if_splits dest: load_frame)

lemma find_by_id_store_frame: "find_by_id_store items item_id \<sigma> = (r, \<sigma>') \<Longrightarrow> \<sigma>' = \<sigma>"
  by (auto simp: find_by_id_store_def split: prod.splits sum.splits
        dest: load_frame find_loop_frame)

lemma iter_steps_store_frame:
  "iter_steps_store xs item_id counter \<sigma> = (r, \<sigma>') \<Longrightarrow> \<sigma>' = \<sigma>"
  by (induction xs arbitrary: counter)
     (auto split: prod.splits sum.splits option.splits dest: visit_frame)

lemma iter_tasks_store_frame:
  "iter_tasks_store xs item_id counter \<sigma> = (r, \<sigma>') \<Longrightarrow> \<sigma>' = \<sigma>"
  by (induction xs arbitrary: counter)
     (auto split: prod.splits sum.splits option.splits
        dest: visit_frame iterate_frame iter_steps_store_frame)

lemma iter_labs_store_frame:
  "iter_labs_store xs item_id counter \<sigma> = (r, \<sigma>') \<Longrightarrow> \<sigma>' = \<sigma>"
  by (induction xs arbitrary: counter)
     (auto split: prod.splits sum.splits option.splits
        dest: visit_frame iterate_frame iter_tasks_store_frame)

lemma iter_courses_store_frame:
  "iter_courses_store xs item_id counter \<sigma> = (r, \<sigma>') \<Longrightarrow> \<sigma>' = \<sigma>"
  by (induction xs arbitrary: counter)
     (auto split: prod.splits sum.splits option.splits
        dest: visit_frame iterate_frame iter_labs_store_frame)

lemma dfs_store_frame:
  "dfs_store d xs item_id order visited \<sigma> = (r, \<sigma>') \<Longrightarrow> \<sigma>' = \<sigma>"
proof (induction d arbitrary: xs visited r \<sigma> \<sigma>' order)
  case 0
  then show ?case by simp
next
  case (Suc d)
  from Suc.prems show ?case
  proof (induction xs arbitrary: visited r \<sigma> \<sigma>' order)
    case Nil
    then show ?case by simp
  next
    case (Cons x xs)
    from Cons.prems show ?case
      by (auto split: prod.splits sum.splits option.splits Order.splits
            dest!: visit_frame go_target_frame dest: Suc.IH Cons.IH)
  qed
qed

lemma id_lookup_store_frame:
  "get_lab_by_id_store x lab_id \<sigma> = (r1, \<sigma>1) \<Longrightarrow> \<sigma>1 = \<sigma>"
  "get_task_by_id_store x task_id \<sigma> = (r2, \<sigma>2) \<Longrightarrow> \<sigma>2 = \<sigma>"
  "get_step_by_id_store x step_id \<sigma> = (r3, \<sigma>3) \<Longrightarrow> \<sigma>3 = \<sigma>"
  by (auto simp: get_lab_by_id_store_def get_task_by_id_store_def get_step_by_id_store_def
        split: prod.splits sum.splits dest!: load_frame dest: find_by_id_store_frame)

lemma get_lab_by_path_store_frame:
  "get_lab_by_path_store courses course_id lab_id \<sigma> = (r, \<sigma>') \<Longrightarrow> \<sigma>' = \<sigma>"
  by (auto simp: get_lab_by_path_store_def get_course_by_path_store_def
        get_course_by_id_store_def split: prod.splits sum.splits option.splits
        dest!: find_by_id_store_frame dest: id_lookup_store_frame)

lemma get_task_by_path_store_frame:
  "get_task_by_path_store courses course_id lab_id task_id \<sigma> = (r, \<sigma>') \<Longrightarrow> \<sigma>' = \<sigma>"
  by (auto simp: get_task_by_path_store_def split: prod.splits sum.splits option.splits
        dest!: get_lab_by_path_store_frame dest: id_lookup_store_frame)

lemma get_step_by_path_store_frame:
  "get_step_by_path_store courses course_id lab_id task_id step_id \<sigma> = (r, \<sigma>')
     \<Longrightarrow> \<sigma>' = \<sigma>"
  by (auto simp: get_step_by_path_store_def split: prod.splits sum.splits option.splits
        dest!: get_task_by_path_store_frame dest: id_lookup_store_frame)

lemma dfs_iterative_store_frame:
  "get_item_by_id_dfs_iterative_store courses item_id order \<sigma> = (r, \<sigma>') \<Longrightarrow> \<sigma>' = \<sigma>"
  by (auto simp: get_item_by_id_dfs_iterative_store_def
        split: prod.splits sum.splits Order.splits
        dest!: load_frame dest: iter_courses_store_frame)

lemma dfs_recursive_store_frame:
  "get_item_by_id_dfs_recursive_store limit items item_id order \<sigma> = (r, \<sigma>') \<Longrightarrow> \<sigma>' = \<sigma>"
  by (auto simp: get_item_by_id_dfs_recursive_store_def
        split: prod.splits sum.splits
        dest!: load_frame dest: dfs_store_frame)

text \<open>
  On a store that represents a forest the store functions raise nothing and return the
  results of the functions on values, by reference.
\<close>

lemma list_rep_load:
  "list_rep R \<sigma> l ys \<Longrightarrow> \<exists>as. load_list l \<sigma> = (Inr as, \<sigma>) \<and> list_all2 R as ys"
  by (auto simp: list_rep_def load_list.simps split: option.splits obj.splits)

lemma item_rep_load_id: "item_rep \<sigma> a x \<Longrightarrow> load_id a \<sigma> = (Inr (ident x), \<sigma>)"
  by (cases x)
     (auto simp: course_rep_def lab_rep_def task_rep_def step_rep_def load_id.simps
        split: option.splits obj.splits)

lemma item_rep_visit:
  "item_rep \<sigma> a x \<Longrightarrow>
     visit a item_id counter \<sigma> =
       (Inr (if ident x = item_id then Some (FoundRef a (counter + 1)) else None, counter + 1), \<sigma>)"
  by (simp add: visit_def item_rep_load_id Let_def)

lemma list_all2_item_rep:
  "list_all2 (step_rep \<sigma>) as ss \<Longrightarrow> list_all2 (item_rep \<sigma>) as (map StepItem ss)"
  "list_all2 (task_rep \<sigma>) as ts \<Longrightarrow> list_all2 (item_rep \<sigma>) as (map TaskItem ts)"
  "list_all2 (lab_rep \<sigma>) as ls \<Longrightarrow> list_all2 (item_rep \<sigma>) as (map LabItem ls)"
  "list_all2 (course_rep \<sigma>) as cs \<Longrightarrow> list_all2 (item_rep \<sigma>) as (map CourseItem cs)"
  by (simp_all add: list_all2_map2)

lemma node_rep_go_target:
  "course_rep \<sigma> a c \<Longrightarrow>
     \<exists>ys. go_target a \<sigma> = (Inr (Some ys), \<sigma>) \<and> list_all2 (lab_rep \<sigma>) ys (labs c)"
  "lab_rep \<sigma> a l \<Longrightarrow>
     \<exists>ys. go_target a \<sigma> = (Inr (Some ys), \<sigma>) \<and> list_all2 (task_rep \<sigma>) ys (tasks l)"
  "task_rep \<sigma> a t \<Longrightarrow>
     \<exists>ys. go_target a \<sigma> = (Inr (Some ys), \<sigma>) \<and> list_all2 (step_rep \<sigma>) ys (steps t)"
  "step_rep \<sigma> a s \<Longrightarrow> go_target a \<sigma> = (Inr None, \<sigma>)"
  by (auto simp: course_rep_def lab_rep_def task_rep_def step_rep_def go_target_def
        load_obj.simps split: option.splits obj.splits dest!: list_rep_load)

lemma item_rep_go_target:
  assumes "item_rep \<sigma> a x"
  shows "(\<exists>ys. go_target a \<sigma> = (Inr (Some ys), \<sigma>) \<and> list_all2 (item_rep \<sigma>) ys (children x)
           \<and> 1 < height x)
     \<or> (go_target a \<sigma> = (Inr None, \<sigma>) \<and> children x = [])"
proof (cases x)
  case (CourseItem c)
  then show ?thesis
    using assms node_rep_go_target(1) [of \<sigma> a c] by (auto simp: list_all2_map2)
next
  case (LabItem l)
  then show ?thesis
    using assms node_rep_go_target(2) [of \<sigma> a l] by (auto simp: list_all2_map2)
next
  case (TaskItem t)
  then show ?thesis
    using assms node_rep_go_target(3) [of \<sigma> a t] by (auto simp: list_all2_map2)
next
  case (StepItem s)
  then show ?thesis
    using assms node_rep_go_target(4) [of \<sigma> a s] by simp
qed

lemma height_children: "y \<in> set (children x) \<Longrightarrow> Suc (height y) = height x"
  by (cases x) auto

lemma found_rep_simps [simp]:
  "found_rep \<sigma> r None \<longleftrightarrow> r = None"
  "found_rep \<sigma> None f \<longleftrightarrow> f = None"
  "found_rep \<sigma> (Some (FoundRef a n)) (Some (FoundItem x m)) \<longleftrightarrow> n = m \<and> item_rep \<sigma> a x"
  by (auto simp: found_rep_def split: option.splits found_ref.splits FoundItem.splits)

lemma dfs_store_refines:
  "list_all2 (item_rep \<sigma>) xs items \<Longrightarrow> (\<forall>x\<in>set items. height x \<le> d) \<Longrightarrow> 0 < d \<Longrightarrow>
     \<exists>r. dfs_store d xs item_id order v \<sigma> =
           (Inr (r, snd (get_item_by_id_dfs_recursive_inner items item_id order v)), \<sigma>)
         \<and> found_rep \<sigma> r (fst (get_item_by_id_dfs_recursive_inner items item_id order v))"
proof (induction items arbitrary: xs d v rule: item_list_induct)
  case Nil
  then obtain d' where "d = Suc d'" by (cases d) auto
  with Nil show ?case by simp
next
  case (Cons x items)
  from Cons.prems(1) obtain a as where xs: "xs = a # as" and a: "item_rep \<sigma> a x"
    and as: "list_all2 (item_rep \<sigma>) as items"
    by (auto simp: list_all2_Cons2)
  from Cons.prems(3) obtain d' where d: "d = Suc d'" by (cases d) auto
  from Cons.prems(2) have hx: "height x \<le> d" and hitems: "\<forall>x\<in>set items. height x \<le> d"
    by auto
  note rest = Cons.IH(2) [OF as hitems Cons.prems(3)]
  have kids: "\<exists>r. go_kids v1 = (Inr (r, snd (get_item_by_id_dfs_recursive_inner (children x) item_id order v1)), \<sigma>)
         \<and> found_rep \<sigma> r (fst (get_item_by_id_dfs_recursive_inner (children x) item_id order v1))"
    if "go_kids = (\<lambda>v1. case go_target a \<sigma> of
                  (Inl e, \<sigma>) \<Rightarrow> (Inl e, \<sigma>)
                | (Inr (Some ys), \<sigma>) \<Rightarrow> dfs_store d' ys item_id order v1 \<sigma>
                | (Inr None, \<sigma>) \<Rightarrow> (Inr (None, v1), \<sigma>))" for go_kids v1
  proof -
    from item_rep_go_target [OF a] show ?thesis
    proof (elim disjE exE conjE)
      fix ys
      assume g: "go_target a \<sigma> = (Inr (Some ys), \<sigma>)"
        and ys: "list_all2 (item_rep \<sigma>) ys (children x)" and h: "1 < height x"
      from h hx d have "0 < d'" by simp
      moreover have "\<forall>y\<in>set (children x). height y \<le> d'"
        using height_children [of _ x] hx d by fastforce
      ultimately show ?thesis
        using Cons.IH(1) [OF ys, of d' v1] g that by simp
    next
      assume "go_target a \<sigma> = (Inr None, \<sigma>)" and "children x = []"
      then show ?thesis using that by simp
    qed
  qed
  show ?case
  proof (cases order)
    case PreOrder
    obtain p1 v1 where
      pk: "get_item_by_id_dfs_recursive_inner (children x) item_id PreOrder (v + 1) = (p1, v1)"
      by force
    from kids [OF refl, of "v + 1"] pk obtain r1 where
      r1: "(case go_target a \<sigma> of
                  (Inl e, \<sigma>) \<Rightarrow> (Inl e, \<sigma>)
                | (Inr (Some ys), \<sigma>) \<Rightarrow> dfs_store d' ys item_id PreOrder (v + 1) \<sigma>
                | (Inr None, \<sigma>) \<Rightarrow> (Inr (None, v + 1), \<sigma>))
             = (Inr (r1, v1), \<sigma>)"
      and f1: "found_rep \<sigma> r1 p1"
      unfolding PreOrder by auto
    show ?thesis
    proof (cases "ident x = item_id")
      case True
      then show ?thesis
        using a by (simp add: xs d PreOrder item_rep_visit inner_PreOrder)
    next
      case False
      show ?thesis
      proof (cases p1)
        case None
        with f1 have "r1 = None" by simp
        then show ?thesis
          using rest [of v1] False
          by (simp add: xs d PreOrder item_rep_visit [OF a] inner_PreOrder pk r1 None)
      next
        case (Some f)
        with f1 obtain fr where "r1 = Some fr"
          by (cases r1) auto
        then show ?thesis
          using f1 False
          by (simp add: xs d PreOrder item_rep_visit [OF a] inner_PreOrder pk r1 Some)
      qed
    qed
  next
    case PostOrder
    obtain p1 v1 where
      pk: "get_item_by_id_dfs_recursive_inner (children x) item_id PostOrder v = (p1, v1)"
      by force
    from kids [OF refl, of v] pk obtain r1 where
      r1: "(case go_target a \<sigma> of
                (Inl e, \<sigma>) \<Rightarrow> (Inl e, \<sigma>)
              | (Inr (Some ys), \<sigma>) \<Rightarrow> dfs_store d' ys item_id PostOrder v \<sigma>
              | (Inr None, \<sigma>) \<Rightarrow> (Inr (None, v), \<sigma>))
           = (Inr (r1, v1), \<sigma>)"
      and f1: "found_rep \<sigma> r1 p1"
      unfolding PostOrder by auto
    show ?thesis
    proof (cases p1)
      case None
      with f1 have "r1 = None" by simp
      then show ?thesis
        using rest [of "v1 + 1"] a
        by (simp add: xs d PostOrder item_rep_visit [OF a] inner_PostOrder pk r1 None)
    next
      case (Some f)
      with f1 obtain fr where "r1 = Some fr"
        by (cases r1) auto
      then show ?thesis
        using f1
        by (simp add: xs d PostOrder item_rep_visit [OF a] inner_PostOrder pk r1 Some)
    qed
  qed
qed

lemma node_rep_iterate:
  "course_rep \<sigma> a c \<Longrightarrow>
     \<exists>ys. iterate_labs a \<sigma> = (Inr ys, \<sigma>) \<and> list_all2 (lab_rep \<sigma>) ys (labs c)"
  "lab_rep \<sigma> a l \<Longrightarrow>
     \<exists>ys. iterate_tasks a \<sigma> = (Inr ys, \<sigma>) \<and> list_all2 (task_rep \<sigma>) ys (tasks l)"
  "task_rep \<sigma> a t \<Longrightarrow>
     \<exists>ys. iterate_steps a \<sigma> = (Inr ys, \<sigma>) \<and> list_all2 (step_rep \<sigma>) ys (steps t)"
  by (auto simp: course_rep_def lab_rep_def task_rep_def iterate_labs_def iterate_tasks_def
        iterate_steps_def load_labs.simps load_tasks.simps load_steps.simps
        split: option.splits obj.splits dest!: list_rep_load)

lemma iter_steps_store_refines:
  "list_all2 (step_rep \<sigma>) xs ys \<Longrightarrow>
     \<exists>r. iter_steps_store xs item_id c \<sigma> = (Inr (r, snd (iter_steps ys item_id c)), \<sigma>)
         \<and> found_rep \<sigma> r (fst (iter_steps ys item_id c))"
proof (induction arbitrary: c rule: list_all2_induct)
  case Nil
  show ?case by simp
next
  case (Cons a as y ys)
  from Cons.hyps(1) have a: "item_rep \<sigma> a (StepItem y)" by simp
  show ?case
    using Cons.IH [of "c + 1"] a
    by (simp add: item_rep_visit [OF a] Let_def)
qed

lemma iter_tasks_store_refines:
  "list_all2 (task_rep \<sigma>) xs ys \<Longrightarrow>
     \<exists>r. iter_tasks_store xs item_id c \<sigma> = (Inr (r, snd (iter_tasks ys item_id c)), \<sigma>)
         \<and> found_rep \<sigma> r (fst (iter_tasks ys item_id c))"
proof (induction arbitrary: c rule: list_all2_induct)
  case Nil
  show ?case by simp
next
  case (Cons a as y ys)
  from Cons.hyps(1) have a: "item_rep \<sigma> a (TaskItem y)" by simp
  from node_rep_iterate(3) [OF Cons.hyps(1)] obtain ks where
    ks: "iterate_steps a \<sigma> = (Inr ks, \<sigma>)" and kr: "list_all2 (step_rep \<sigma>) ks (steps y)"
    by blast
  obtain p1 c1 where pk: "iter_steps (steps y) item_id (c + 1) = (p1, c1)"
    by force
  from iter_steps_store_refines [OF kr, of item_id "c + 1"] pk obtain r1 where
    r1: "iter_steps_store ks item_id (c + 1) \<sigma> = (Inr (r1, c1), \<sigma>)"
    and f1: "found_rep \<sigma> r1 p1"
    by auto
  show ?case
  proof (cases "task_ident y = item_id")
    case True
    then show ?thesis
      using a by (simp add: item_rep_visit [OF a] Let_def)
  next
    case False
    show ?thesis
    proof (cases p1)
      case None
      with f1 have "r1 = None" by simp
      then show ?thesis
        using Cons.IH [of c1] False
        by (simp add: item_rep_visit [OF a] Let_def ks r1 pk None)
    next
      case (Some f)
      with f1 obtain fr where "r1 = Some fr"
        by (cases r1) auto
      then show ?thesis
        using f1 False
        by (simp add: item_rep_visit [OF a] Let_def ks r1 pk Some)
    qed
  qed
qed

lemma iter_labs_store_refines:
  "list_all2 (lab_rep \<sigma>) xs ys \<Longrightarrow>
     \<exists>r. iter_labs_store xs item_id c \<sigma> = (Inr (r, snd (iter_labs ys item_id c)), \<sigma>)
         \<and> found_rep \<sigma> r (fst (iter_labs ys item_id c))"
proof (induction arbitrary: c rule: list_all2_induct)
  case Nil
  show ?case by simp
next
  case (Cons a as y ys)
  from Cons.hyps(1) have a: "item_rep \<sigma> a (LabItem y)" by simp
  from node_rep_iterate(2) [OF Cons.hyps(1)] obtain ks where
    ks: "iterate_tasks a \<sigma> = (Inr ks, \<sigma>)" and kr: "list_all2 (task_rep \<sigma>) ks (tasks y)"
    by blast
  obtain p1 c1 where pk: "iter_tasks (tasks y) item_id (c + 1) = (p1, c1)"
    by force
  from iter_tasks_store_refines [OF kr, of item_id "c + 1"] pk obtain r1 where
    r1: "iter_tasks_store ks item_id (c + 1) \<sigma> = (Inr (r1, c1), \<sigma>)"
    and f1: "found_rep \<sigma> r1 p1"
    by auto
  show ?case
  proof (cases "lab_ident y = item_id")
    case True
    then show ?thesis
      using a by (simp add: item_rep_visit [OF a] Let_def)
  next
    case False
    show ?thesis
    proof (cases p1)
      case None
      with f1 have "r1 = None" by simp
      then show ?thesis
        using Cons.IH [of c1] False
        by (simp add: item_rep_visit [OF a] Let_def ks r1 pk None)
    next
      case (Some f)
      with f1 obtain fr where "r1 = Some fr"
        by (cases r1) auto
      then show ?thesis
        using f1 False
        by (simp add: item_rep_visit [OF a] Let_def ks r1 pk Some)
    qed
  qed
qed

lemma iter_courses_store_refines:
  "list_all2 (course_rep \<sigma>) xs ys \<Longrightarrow>
     \<exists>r. iter_courses_store xs item_id c \<sigma> = (Inr (r, snd (iter_courses ys item_id c)), \<sigma>)
         \<and> found_rep \<sigma> r (fst (iter_courses ys item_id c))"
proof (induction arbitrary: c rule: list_all2_induct)
  case Nil
  show ?case by simp
next
  case (Cons a as y ys)
  from Cons.hyps(1) have a: "item_rep \<sigma> a (CourseItem y)" by simp
  from node_rep_iterate(1) [OF Cons.hyps(1)] obtain ks where
    ks: "iterate_labs a \<sigma> = (Inr ks, \<sigma>)" and kr: "list_all2 (lab_rep \<sigma>) ks (labs y)"
    by blast
  obtain p1 c1 where pk: "iter_labs (labs y) item_id (c + 1) = (p1, c1)"
    by force
  from iter_labs_store_refines [OF kr, of item_id "c + 1"] pk obtain r1 where
    r1: "iter_labs_store ks item_id (c + 1) \<sigma> = (Inr (r1, c1), \<sigma>)"
    and f1: "found_rep \<sigma> r1 p1"
    by auto
  show ?case
  proof (cases "course_ident y = item_id")
    case True
    then show ?thesis
      using a by (simp add: item_rep_visit [OF a] Let_def)
  next
    case False
    show ?thesis
    proof (cases p1)
      case None
      with f1 have "r1 = None" by simp
      then show ?thesis
        using Cons.IH [of c1] False
        by (simp add: item_rep_visit [OF a] Let_def ks r1 pk None)
    next
      case (Some f)
      with f1 obtain fr where "r1 = Some fr"
        by (cases r1) auto
      then show ?thesis
        using f1 False
        by (simp add: item_rep_visit [OF a] Let_def ks r1 pk Some)
    qed
  qed
qed

lemma dfs_iterative_store_refines:
  assumes "list_rep (course_rep \<sigma>) \<sigma> l courses"
  shows "\<exists>r. get_item_by_id_dfs_iterative_store l item_id order \<sigma> = (Inr r, \<sigma>)
           \<and> found_rep \<sigma> r (get_item_by_id_dfs_iterative courses item_id order)"
proof -
  from list_rep_load [OF assms] obtain cs where
    cs: "load_list l \<sigma> = (Inr cs, \<sigma>)" and cr: "list_all2 (course_rep \<sigma>) cs courses"
    by blast
  obtain p1 c1 where pk: "iter_courses courses item_id 0 = (p1, c1)"
    by force
  from iter_courses_store_refines [OF cr, of item_id 0] pk obtain r1 where
    "iter_courses_store cs item_id 0 \<sigma> = (Inr (r1, c1), \<sigma>)" "found_rep \<sigma> r1 p1"
    by auto
  then show ?thesis
    by (cases order)
       (simp_all add: get_item_by_id_dfs_iterative_store_def get_item_by_id_dfs_iterative_def
          dfs_iterative_run_def cs pk)
qed

lemma dfs_recursive_store_refines:
  assumes "list_rep (item_rep \<sigma>) \<sigma> l items" and "4 \<le> limit"
  shows "\<exists>r. get_item_by_id_dfs_recursive_store limit l item_id order \<sigma> = (Inr r, \<sigma>)
           \<and> found_rep \<sigma> r (get_item_by_id_dfs_recursive items item_id order)"
proof -
  from list_rep_load [OF assms(1)] obtain xs where
    xs: "load_list l \<sigma> = (Inr xs, \<sigma>)" and xr: "list_all2 (item_rep \<sigma>) xs items"
    by blast
  have h: "\<forall>x\<in>set items. height x \<le> limit"
  proof
    fix x
    have "height x \<le> 4" by (cases x) simp_all
    with assms(2) show "height x \<le> limit" by simp
  qed
  obtain p1 v1 where pk: "get_item_by_id_dfs_recursive_inner items item_id order 0 = (p1, v1)"
    by force
  from dfs_store_refines [OF xr h, of item_id order 0] assms(2) pk obtain r1 where
    "dfs_store limit xs item_id order 0 \<sigma> = (Inr (r1, v1), \<sigma>)" "found_rep \<sigma> r1 p1"
    by auto
  then show ?thesis
    by (simp add: get_item_by_id_dfs_recursive_store_def get_item_by_id_dfs_recursive_def
          dfs_recursive_run_def xs pk)
qed

lemma find_loop_refines:
  assumes "\<And>a y. R a y \<Longrightarrow> load_id a \<sigma> = (Inr (get_id y), \<sigma>)"
  shows "list_all2 R as ys \<Longrightarrow>
     \<exists>r. find_loop as item_id \<sigma> = (Inr r, \<sigma>) \<and> rel_option R r (find_by_id get_id ys item_id)"
proof (induction rule: list_all2_induct)
  case Nil
  show ?case by simp
next
  case (Cons a as y ys)
  then show ?case by (simp add: assms [OF Cons.hyps(1)])
qed

lemma find_by_id_store_refines:
  assumes "list_rep R \<sigma> l ys" and "\<And>a y. R a y \<Longrightarrow> load_id a \<sigma> = (Inr (get_id y), \<sigma>)"
  shows "\<exists>r. find_by_id_store l item_id \<sigma> = (Inr r, \<sigma>)
           \<and> rel_option R r (find_by_id get_id ys item_id)"
proof -
  from list_rep_load [OF assms(1)] obtain as where
    as: "load_list l \<sigma> = (Inr as, \<sigma>)" and ar: "list_all2 R as ys"
    by blast
  from find_loop_refines [of R \<sigma> get_id, OF assms(2) ar] show ?thesis
    by (simp add: find_by_id_store_def as)
qed

lemma node_rep_load_id:
  "course_rep \<sigma> a c \<Longrightarrow> load_id a \<sigma> = (Inr (course_ident c), \<sigma>)"
  "lab_rep \<sigma> a l \<Longrightarrow> load_id a \<sigma> = (Inr (lab_ident l), \<sigma>)"
  "task_rep \<sigma> a t \<Longrightarrow> load_id a \<sigma> = (Inr (task_ident t), \<sigma>)"
  "step_rep \<sigma> a s \<Longrightarrow> load_id a \<sigma> = (Inr (step_ident s), \<sigma>)"
  using item_rep_load_id [of \<sigma> a "CourseItem c"] item_rep_load_id [of \<sigma> a "LabItem l"]
    item_rep_load_id [of \<sigma> a "TaskItem t"] item_rep_load_id [of \<sigma> a "StepItem s"]
  by simp_all

lemma node_rep_child_list:
  "course_rep \<sigma> a c \<Longrightarrow>
     \<exists>l. load_labs a \<sigma> = (Inr l, \<sigma>) \<and> list_rep (lab_rep \<sigma>) \<sigma> l (labs c)"
  "lab_rep \<sigma> a lb \<Longrightarrow>
     \<exists>l. load_tasks a \<sigma> = (Inr l, \<sigma>) \<and> list_rep (task_rep \<sigma>) \<sigma> l (tasks lb)"
  "task_rep \<sigma> a t \<Longrightarrow>
     \<exists>l. load_steps a \<sigma> = (Inr l, \<sigma>) \<and> list_rep (step_rep \<sigma>) \<sigma> l (steps t)"
  by (auto simp: course_rep_def lab_rep_def task_rep_def load_labs.simps load_tasks.simps
        load_steps.simps split: option.splits obj.splits)

lemma id_lookup_store_refines:
  "list_rep (course_rep \<sigma>) \<sigma> l courses \<Longrightarrow>
     \<exists>r. get_course_by_id_store l course_id \<sigma> = (Inr r, \<sigma>)
         \<and> rel_option (course_rep \<sigma>) r (get_course_by_id courses course_id)"
  "course_rep \<sigma> a c \<Longrightarrow>
     \<exists>r. get_lab_by_id_store a lab_id \<sigma> = (Inr r, \<sigma>)
         \<and> rel_option (lab_rep \<sigma>) r (get_lab_by_id c lab_id)"
  "lab_rep \<sigma> a lb \<Longrightarrow>
     \<exists>r. get_task_by_id_store a task_id \<sigma> = (Inr r, \<sigma>)
         \<and> rel_option (task_rep \<sigma>) r (get_task_by_id lb task_id)"
  "task_rep \<sigma> a t \<Longrightarrow>
     \<exists>r. get_step_by_id_store a step_id \<sigma> = (Inr r, \<sigma>)
         \<and> rel_option (step_rep \<sigma>) r (get_step_by_id t step_id)"
proof -
  show "list_rep (course_rep \<sigma>) \<sigma> l courses \<Longrightarrow>
     \<exists>r. get_course_by_id_store l course_id \<sigma> = (Inr r, \<sigma>)
         \<and> rel_option (course_rep \<sigma>) r (get_course_by_id courses course_id)"
    unfolding get_course_by_id_store_def get_course_by_id_def
    by (rule find_by_id_store_refines) (simp_all add: node_rep_load_id)
  show "course_rep \<sigma> a c \<Longrightarrow>
     \<exists>r. get_lab_by_id_store a lab_id \<sigma> = (Inr r, \<sigma>)
         \<and> rel_option (lab_rep \<sigma>) r (get_lab_by_id c lab_id)"
    using find_by_id_store_refines [of "lab_rep \<sigma>" \<sigma> _ "labs c" lab_ident lab_id]
      node_rep_child_list(1) [of \<sigma> a c]
    by (auto simp: get_lab_by_id_store_def get_lab_by_id_def node_rep_load_id)
  show "lab_rep \<sigma> a lb \<Longrightarrow>
     \<exists>r. get_task_by_id_store a task_id \<sigma> = (Inr r, \<sigma>)
         \<and> rel_option (task_rep \<sigma>) r (get_task_by_id lb task_id)"
    using find_by_id_store_refines [of "task_rep \<sigma>" \<sigma> _ "tasks lb" task_ident task_id]
      node_rep_child_list(2) [of \<sigma> a lb]
    by (auto simp: get_task_by_id_store_def get_task_by_id_def node_rep_load_id)
  show "task_rep \<sigma> a t \<Longrightarrow>
     \<exists>r. get_step_by_id_store a step_id \<sigma> = (Inr r, \<sigma>)
         \<and> rel_option (step_rep \<sigma>) r (get_step_by_id t step_id)"
    using find_by_id_store_refines [of "step_rep \<sigma>" \<sigma> _ "steps t" step_ident step_id]
      node_rep_child_list(3) [of \<sigma> a t]
    by (auto simp: get_step_by_id_store_def get_step_by_id_def node_rep_load_id)
qed

lemma get_lab_by_path_store_refines:
  assumes "list_rep (course_rep \<sigma>) \<sigma> l courses"
  shows "\<exists>r. get_lab_by_path_store l course_id lab_id \<sigma> = (Inr r, \<sigma>)
           \<and> rel_option (lab_rep \<sigma>) r (get_lab_by_path courses course_id lab_id)"
proof -
  from id_lookup_store_refines(1) [OF assms, of course_id] obtain r where
    r: "get_course_by_id_store l course_id \<sigma> = (Inr r, \<sigma>)"
    and rr: "rel_option (course_rep \<sigma>) r (get_course_by_id courses course_id)"
    by blast
  show ?thesis
  proof (cases "get_course_by_id courses course_id")
    case None
    with rr have "r = None" by simp
    then show ?thesis
      by (simp add: get_lab_by_path_store_def get_lab_by_path_def get_course_by_path_store_def
            get_course_by_path_def r None)
  next
    case (Some c)
    with rr obtain a where a: "r = Some a" "course_rep \<sigma> a c"
      by (auto simp: option_rel_Some2)
    from id_lookup_store_refines(2) [OF a(2), of lab_id] show ?thesis
      by (simp add: get_lab_by_path_store_def get_lab_by_path_def get_course_by_path_store_def
            get_course_by_path_def r a(1) Some)
  qed
qed

lemma get_task_by_path_store_refines:
  assumes "list_rep (course_rep \<sigma>) \<sigma> l courses"
  shows "\<exists>r. get_task_by_path_store l course_id lab_id task_id \<sigma> = (Inr r, \<sigma>)
           \<and> rel_option (task_rep \<sigma>) r (get_task_by_path courses course_id lab_id task_id)"
proof -
  from get_lab_by_path_store_refines [OF assms, of course_id lab_id] obtain r where
    r: "get_lab_by_path_store l course_id lab_id \<sigma> = (Inr r, \<sigma>)"
    and rr: "rel_option (lab_rep \<sigma>) r (get_lab_by_path courses course_id lab_id)"
    by blast
  show ?thesis
  proof (cases "get_lab_by_path courses course_id lab_id")
    case None
    with rr have "r = None" by simp
    then show ?thesis
      by (simp add: get_task_by_path_store_def get_task_by_path_def r None)
  next
    case (Some lb)
    with rr obtain a where a: "r = Some a" "lab_rep \<sigma> a lb"
      by (auto simp: option_rel_Some2)
    from id_lookup_store_refines(3) [OF a(2), of task_id] show ?thesis
      by (simp add: get_task_by_path_store_def get_task_by_path_def r a(1) Some)
  qed
qed

lemma get_step_by_path_store_refines:
  assumes "list_rep (course_rep \<sigma>) \<sigma> l courses"
  shows "\<exists>r. get_step_by_path_store l course_id lab_id task_id step_id \<sigma> = (Inr r, \<sigma>)
           \<and> rel_option (step_rep \<sigma>) r
                (get_step_by_path courses course_id lab_id task_id step_id)"
proof -
  from get_task_by_path_store_refines [OF assms, of course_id lab_id task_id] obtain r where
    r: "get_task_by_path_store l course_id lab_id task_id \<sigma> = (Inr r, \<sigma>)"
    and rr: "rel_option (task_rep \<sigma>) r (get_task_by_path courses course_id lab_id task_id)"
    by blast
  show ?thesis
  proof (cases "get_task_by_path courses course_id lab_id task_id")
    case None
    with rr have "r = None" by simp
    then show ?thesis
      by (simp add: get_step_by_path_store_def get_step_by_path_def r None)
  next
    case (Some t)
    with rr obtain a where a: "r = Some a" "task_rep \<sigma> a t"
      by (auto simp: option_rel_Some2)
    from id_lookup_store_refines(4) [OF a(2), of step_id] show ?thesis
      by (simp add: get_step_by_path_store_def get_step_by_path_def r a(1) Some)
  qed
qed

text \<open>The store functions at work on the chain.\<close>

lemma chain_store_examples:
  "fst (get_item_by_id_dfs_iterative_store 0 ''S1'' PreOrder chain_store)
     = Inr (Some (FoundRef 7 4))"
  "fst (get_item_by_id_dfs_recursive_store 4 0 ''S1'' PreOrder chain_store)
     = Inr (Some (FoundRef 7 4))"
  "fst (get_item_by_id_dfs_recursive_store 4 0 ''C1'' PostOrder chain_store)
     = Inr (Some (FoundRef 1 4))"
  "fst (get_item_by_id_dfs_recursive_store 3 0 ''S1'' PreOrder chain_store)
     = Inl RecursionError"
  "fst (get_step_by_path_store 0 ''C1'' ''L1'' ''T1'' ''S1'' chain_store) = Inr (Some 7)"
  "fst (get_step_by_path_store 0 ''C1'' ''L9'' ''T1'' ''S1'' chain_store) = Inr None"
  by (simp_all add: chain_store_def get_item_by_id_dfs_iterative_store_def
        get_item_by_id_dfs_recursive_store_def get_step_by_path_store_def
        get_task_by_path_store_def get_lab_by_path_store_def get_course_by_path_store_def
        get_course_by_id_store_def get_lab_by_id_store_def get_task_by_id_store_def
        get_step_by_id_store_def find_by_id_store_def visit_def go_target_def
        iterate_labs_def iterate_tasks_def iterate_steps_def numeral_eq_Suc
        load_list.simps load_id.simps load_labs.simps load_tasks.simps load_steps.simps
        load_obj.simps)

lemma chain_store_rep:
  "list_rep (course_rep chain_store) chain_store 0
     [Course ''C1'' [Lab ''L1'' [Task ''T1'' [Step ''S1'']]]]"
  by (simp add: chain_store_def list_rep_def course_rep_def lab_rep_def task_rep_def
        step_rep_def)

section \<open>Properties\<close>

text \<open>
  C1. For every forest of courses and every item id that occurs in the forest, the
  iterative and the recursive search with PreOrder return the same result, and that
  result is a \<open>FoundItem\<close>: the same node and the same \<open>visited_nodes\<close>.
\<close>

theorem dfs_preorder_iterative_recursive_agree:
  assumes "item_id \<in> set (forest_ids courses)"
  shows "get_item_by_id_dfs_iterative courses item_id PreOrder =
           get_item_by_id_dfs_recursive (map CourseItem courses) item_id PreOrder
         \<and> (\<exists>node n. get_item_by_id_dfs_recursive (map CourseItem courses) item_id PreOrder
               = Some (FoundItem node n))"
proof -
  have "get_item_by_id_dfs_iterative courses item_id PreOrder \<noteq> None"
    using assms iter_courses_None_iff [of courses item_id 0]
    by (simp add: get_item_by_id_dfs_iterative_def dfs_iterative_run_def)
  then obtain f where "get_item_by_id_dfs_iterative courses item_id PreOrder = Some f"
    by blast
  then show ?thesis
    using iterative_PreOrder_recursive [of courses item_id]
    by (cases f) simp
qed

theorem dfs_preorder_iterative_recursive_agree_witness:
  "''L2'' \<in> set (forest_ids
       [Course ''C1'' [Lab ''L1'' [Task ''T1'' [Step ''S1'']]], Course ''C2'' [Lab ''L2'' []]])
   \<and> (get_item_by_id_dfs_iterative
       [Course ''C1'' [Lab ''L1'' [Task ''T1'' [Step ''S1'']]], Course ''C2'' [Lab ''L2'' []]]
       ''L2'' PreOrder
     = get_item_by_id_dfs_recursive (map CourseItem
       [Course ''C1'' [Lab ''L1'' [Task ''T1'' [Step ''S1'']]], Course ''C2'' [Lab ''L2'' []]])
       ''L2'' PreOrder
     \<and> (\<exists>node n. get_item_by_id_dfs_recursive (map CourseItem
       [Course ''C1'' [Lab ''L1'' [Task ''T1'' [Step ''S1'']]], Course ''C2'' [Lab ''L2'' []]])
       ''L2'' PreOrder = Some (FoundItem node n)))"
proof -
  let ?F = "[Course ''C1'' [Lab ''L1'' [Task ''T1'' [Step ''S1'']]], Course ''C2'' [Lab ''L2'' []]]"
  have h: "''L2'' \<in> set (forest_ids ?F)"
    by (simp add: forest_ids_def course_ids_def lab_ids_def task_ids_def)
  from h dfs_preorder_iterative_recursive_agree [OF h] show ?thesis by (rule conjI)
qed

text \<open>
  C2. On the forest of one Course C1 with one Lab L1, one Task T1 and one Step S1, the
  recursive search with PostOrder counts the children before the node: it returns
  \<open>FoundItem S1 1\<close> for \<open>''S1''\<close>, \<open>FoundItem T1 2\<close> for \<open>''T1''\<close>,
  \<open>FoundItem L1 3\<close> for \<open>''L1''\<close> and \<open>FoundItem C1 4\<close> for \<open>''C1''\<close>. With PreOrder
  the search for \<open>''C1''\<close> returns \<open>FoundItem C1 1\<close>.
\<close>

theorem dfs_recursive_chain_example:
  "get_item_by_id_dfs_recursive
     [CourseItem (Course ''C1'' [Lab ''L1'' [Task ''T1'' [Step ''S1'']]])] ''S1'' PostOrder
     = Some (FoundItem (StepItem (Step ''S1'')) 1)
   \<and> get_item_by_id_dfs_recursive
     [CourseItem (Course ''C1'' [Lab ''L1'' [Task ''T1'' [Step ''S1'']]])] ''T1'' PostOrder
     = Some (FoundItem (TaskItem (Task ''T1'' [Step ''S1''])) 2)
   \<and> get_item_by_id_dfs_recursive
     [CourseItem (Course ''C1'' [Lab ''L1'' [Task ''T1'' [Step ''S1'']]])] ''L1'' PostOrder
     = Some (FoundItem (LabItem (Lab ''L1'' [Task ''T1'' [Step ''S1'']])) 3)
   \<and> get_item_by_id_dfs_recursive
     [CourseItem (Course ''C1'' [Lab ''L1'' [Task ''T1'' [Step ''S1'']]])] ''C1'' PostOrder
     = Some (FoundItem (CourseItem (Course ''C1'' [Lab ''L1'' [Task ''T1'' [Step ''S1'']]])) 4)
   \<and> get_item_by_id_dfs_recursive
     [CourseItem (Course ''C1'' [Lab ''L1'' [Task ''T1'' [Step ''S1'']]])] ''C1'' PreOrder
     = Some (FoundItem (CourseItem (Course ''C1'' [Lab ''L1'' [Task ''T1'' [Step ''S1'']]])) 1)"
  by (simp add: get_item_by_id_dfs_recursive_def dfs_recursive_run_def
        get_item_by_id_dfs_recursive_inner.simps(2))

text \<open>
  C3. With PostOrder the iterative search returns \<open>None\<close> for every forest and every
  id, and so does \<^const>\<open>get_item_by_id\<close> on every forest that \<^verbatim>\<open>read_courses\<close> loads.
\<close>

theorem dfs_iterative_postorder_absent:
  "get_item_by_id_dfs_iterative courses item_id PostOrder = None
   \<and> get_item_by_id (Inr courses) item_id PostOrder = Inr None"
  by (simp add: get_item_by_id_def get_item_by_id_dfs_iterative_def dfs_iterative_run_def)

text \<open>
  C4. When the id occurs in the list, \<^const>\<open>find_by_id\<close> returns the element at the
  least position whose id is the searched one; when it does not occur, the result is
  \<open>None\<close>.
\<close>

theorem find_by_id_first_occurrence:
  "(item_id \<in> get_id ` set items \<longrightarrow>
      (\<exists>i<length items. find_by_id get_id items item_id = Some (items ! i)
          \<and> get_id (items ! i) = item_id \<and> (\<forall>j<i. get_id (items ! j) \<noteq> item_id)))
   \<and> (item_id \<notin> get_id ` set items \<longrightarrow> find_by_id get_id items item_id = None)"
proof (intro conjI impI)
  assume "item_id \<in> get_id ` set items"
  then show "\<exists>i<length items. find_by_id get_id items item_id = Some (items ! i)
          \<and> get_id (items ! i) = item_id \<and> (\<forall>j<i. get_id (items ! j) \<noteq> item_id)"
    by (rule find_by_id_Some_index)
next
  assume "item_id \<notin> get_id ` set items"
  then show "find_by_id get_id items item_id = None"
    by (simp add: find_by_id_None_iff)
qed

theorem find_by_id_first_occurrence_witness:
  "''b'' \<in> lab_ident ` set [Lab ''a'' [], Lab ''b'' [Task ''t'' []], Lab ''b'' []]
   \<and> find_by_id lab_ident [Lab ''a'' [], Lab ''b'' [Task ''t'' []], Lab ''b'' []] ''b''
       = Some ([Lab ''a'' [], Lab ''b'' [Task ''t'' []], Lab ''b'' []] ! 1)
   \<and> ''z'' \<notin> lab_ident ` set [Lab ''a'' [], Lab ''b'' [Task ''t'' []], Lab ''b'' []]
   \<and> find_by_id lab_ident [Lab ''a'' [], Lab ''b'' [Task ''t'' []], Lab ''b'' []] ''z'' = None"
proof -
  let ?L = "[Lab ''a'' [], Lab ''b'' [Task ''t'' []], Lab ''b'' []]"
  have h1: "''b'' \<in> lab_ident ` set ?L" by simp
  have h2: "''z'' \<notin> lab_ident ` set ?L" by simp
  from find_by_id_first_occurrence [of "''b''" lab_ident ?L] h1
  obtain i where i: "i < length ?L" "find_by_id lab_ident ?L ''b'' = Some (?L ! i)"
    "lab_ident (?L ! i) = ''b''" "\<forall>j<i. lab_ident (?L ! j) \<noteq> ''b''"
    by meson
  have "i \<noteq> 0" using i(3) by (intro notI) simp
  moreover have "i \<noteq> 2"
  proof
    assume "i = 2"
    then have "(1::nat) < i" by simp
    with i(4) have "lab_ident (?L ! 1) \<noteq> ''b''" by blast
    then show False by simp
  qed
  moreover from i(1) have "i = 0 \<or> i = 1 \<or> i = 2" by auto
  ultimately have "i = 1" by blast
  with i(2) have r1: "find_by_id lab_ident ?L ''b'' = Some (?L ! 1)" by simp
  from find_by_id_first_occurrence [of "''z''" lab_ident ?L] h2
  have r2: "find_by_id lab_ident ?L ''z'' = None" by (rule conjunct2 [THEN mp])
  from h1 r1 h2 r2 show ?thesis by (intro conjI)
qed

text \<open>
  C5. Each path lookup is the chain of the id lookups, \<open>None\<close> propagated at every
  step: \<^const>\<open>get_lab_by_path\<close>, \<^const>\<open>get_task_by_path\<close> and \<^const>\<open>get_step_by_path\<close>.
\<close>

theorem path_lookup_is_id_chain:
  "get_lab_by_path courses course_id lab_id =
     Option.bind (get_course_by_id courses course_id) (\<lambda>course. get_lab_by_id course lab_id)
   \<and> get_task_by_path courses course_id lab_id task_id =
     Option.bind (get_course_by_id courses course_id) (\<lambda>course.
       Option.bind (get_lab_by_id course lab_id) (\<lambda>lab. get_task_by_id lab task_id))
   \<and> get_step_by_path courses course_id lab_id task_id step_id =
     Option.bind (get_course_by_id courses course_id) (\<lambda>course.
       Option.bind (get_lab_by_id course lab_id) (\<lambda>lab.
         Option.bind (get_task_by_id lab task_id) (\<lambda>task. get_step_by_id task step_id)))"
  by (simp add: get_step_by_path_def get_task_by_path_def get_lab_by_path_def
        get_course_by_path_def split: option.splits)

text \<open>
  C6. A lookup that misses returns \<open>None\<close>: \<^const>\<open>find_by_id\<close> and the four id lookups
  when the id does not occur among the items searched, and each path lookup as soon as
  the lookup of an ancestor, or the last lookup of the chain, is \<open>None\<close>. The lookups
  are total functions into \<open>option\<close>: the source has no \<^verbatim>\<open>raise\<close> and no operation that
  fails on a list of items, so the model has no error value to return.
\<close>

theorem lookup_absent_on_miss:
  "(item_id \<notin> get_id ` set items \<longrightarrow> find_by_id get_id items item_id = None)
   \<and> (course_id \<notin> course_ident ` set courses \<longrightarrow> get_course_by_id courses course_id = None)
   \<and> (lab_id \<notin> lab_ident ` set (labs course) \<longrightarrow> get_lab_by_id course lab_id = None)
   \<and> (task_id \<notin> task_ident ` set (tasks lab) \<longrightarrow> get_task_by_id lab task_id = None)
   \<and> (step_id \<notin> step_ident ` set (steps task) \<longrightarrow> get_step_by_id task step_id = None)
   \<and> (get_course_by_id courses course_id = None \<longrightarrow>
        get_course_by_path courses course_id = None)
   \<and> (get_course_by_path courses course_id = None
          \<or> (\<exists>c. get_course_by_path courses course_id = Some c
                  \<and> get_lab_by_id c lab_id = None) \<longrightarrow>
        get_lab_by_path courses course_id lab_id = None)
   \<and> (get_lab_by_path courses course_id lab_id = None
          \<or> (\<exists>l. get_lab_by_path courses course_id lab_id = Some l
                  \<and> get_task_by_id l task_id = None) \<longrightarrow>
        get_task_by_path courses course_id lab_id task_id = None)
   \<and> (get_task_by_path courses course_id lab_id task_id = None
          \<or> (\<exists>t. get_task_by_path courses course_id lab_id task_id = Some t
                  \<and> get_step_by_id t step_id = None) \<longrightarrow>
        get_step_by_path courses course_id lab_id task_id step_id = None)"
  by (auto simp: get_course_by_id_def get_lab_by_id_def get_task_by_id_def get_step_by_id_def
        get_step_by_path_def get_task_by_path_def get_lab_by_path_def get_course_by_path_def
        find_by_id_None_iff [symmetric])

theorem lookup_absent_on_miss_witness:
  "(''C9'' \<notin> course_ident ` set [Course ''C1'' [Lab ''L1'' [Task ''T1'' [Step ''S1'']]]]
    \<and> find_by_id course_ident [Course ''C1'' [Lab ''L1'' [Task ''T1'' [Step ''S1'']]]] ''C9'' = None
    \<and> get_course_by_id [Course ''C1'' [Lab ''L1'' [Task ''T1'' [Step ''S1'']]]] ''C9'' = None
    \<and> get_course_by_path [Course ''C1'' [Lab ''L1'' [Task ''T1'' [Step ''S1'']]]] ''C9'' = None
    \<and> get_lab_by_path [Course ''C1'' [Lab ''L1'' [Task ''T1'' [Step ''S1'']]]] ''C9'' ''L1'' = None
    \<and> get_task_by_path [Course ''C1'' [Lab ''L1'' [Task ''T1'' [Step ''S1'']]]]
          ''C9'' ''L1'' ''T1'' = None
    \<and> get_step_by_path [Course ''C1'' [Lab ''L1'' [Task ''T1'' [Step ''S1'']]]]
          ''C9'' ''L1'' ''T1'' ''S1'' = None)
   \<and> (''L9'' \<notin> lab_ident ` set (labs (Course ''C1'' [Lab ''L1'' [Task ''T1'' [Step ''S1'']]]))
    \<and> get_lab_by_id (Course ''C1'' [Lab ''L1'' [Task ''T1'' [Step ''S1'']]]) ''L9'' = None
    \<and> ''T9'' \<notin> task_ident ` set (tasks (Lab ''L1'' [Task ''T1'' [Step ''S1'']]))
    \<and> get_task_by_id (Lab ''L1'' [Task ''T1'' [Step ''S1'']]) ''T9'' = None
    \<and> ''S9'' \<notin> step_ident ` set (steps (Task ''T1'' [Step ''S1'']))
    \<and> get_step_by_id (Task ''T1'' [Step ''S1'']) ''S9'' = None)
   \<and> (get_task_by_path [Course ''C1'' [Lab ''L1'' [Task ''T1'' [Step ''S1'']]]]
          ''C1'' ''L1'' ''T1'' = Some (Task ''T1'' [Step ''S1''])
    \<and> get_step_by_id (Task ''T1'' [Step ''S1'']) ''S9'' = None
    \<and> get_step_by_path [Course ''C1'' [Lab ''L1'' [Task ''T1'' [Step ''S1'']]]]
          ''C1'' ''L1'' ''T1'' ''S9'' = None)"
proof -
  let ?T = "Task ''T1'' [Step ''S1'']"
  let ?L = "Lab ''L1'' [?T]"
  let ?C = "Course ''C1'' [?L]"
  note miss = lookup_absent_on_miss
    [of "''C9''" course_ident "[?C]" "''C9''" "[?C]" "''L9''" ?C "''T9''" ?L "''S9''" ?T]
  note hit = lookup_absent_on_miss
    [of "''C9''" course_ident "[?C]" "''C1''" "[?C]" "''L1''" ?C "''T1''" ?L "''S9''" ?T]
  show ?thesis
    using miss hit
    by (simp add: get_course_by_id_def get_lab_by_id_def get_task_by_id_def get_step_by_id_def
        get_step_by_path_def get_task_by_path_def get_lab_by_path_def get_course_by_path_def)
qed

text \<open>
  C7. On the empty forest both searches return \<open>None\<close> for every id and either order,
  and the counter is still zero when they return.
\<close>

theorem dfs_empty_forest:
  "dfs_iterative_run [] item_id order = (None, 0)
   \<and> get_item_by_id_dfs_iterative [] item_id order = None
   \<and> dfs_recursive_run [] item_id order = (None, 0)
   \<and> get_item_by_id_dfs_recursive [] item_id order = None"
  by (cases order)
     (simp_all add: dfs_iterative_run_def get_item_by_id_dfs_iterative_def
        dfs_recursive_run_def get_item_by_id_dfs_recursive_def)

text \<open>
  C8. No search mutates the tree it is given: on the object store, \<open>find_by_id\<close>, the path
  lookups and both depth-first searches return the store they received, whatever the
  store, the arguments and the outcome (a result or an exception). On a store that
  represents a forest these functions compute what the functions on values compute
  (the lemmas \<open>*_store_refines\<close>).
\<close>

theorem searches_leave_store_unchanged:
  "snd (find_by_id_store items item_id \<sigma>) = \<sigma>
   \<and> snd (get_course_by_path_store courses course_id \<sigma>) = \<sigma>
   \<and> snd (get_lab_by_path_store courses course_id lab_id \<sigma>) = \<sigma>
   \<and> snd (get_task_by_path_store courses course_id lab_id task_id \<sigma>) = \<sigma>
   \<and> snd (get_step_by_path_store courses course_id lab_id task_id step_id \<sigma>) = \<sigma>
   \<and> snd (get_item_by_id_dfs_iterative_store courses item_id order \<sigma>) = \<sigma>
   \<and> snd (get_item_by_id_dfs_recursive_store limit items item_id order \<sigma>) = \<sigma>"
proof (intro conjI)
  show "snd (find_by_id_store items item_id \<sigma>) = \<sigma>"
    by (rule find_by_id_store_frame [OF surjective_pairing])
  show "snd (get_course_by_path_store courses course_id \<sigma>) = \<sigma>"
    unfolding get_course_by_path_store_def get_course_by_id_store_def
    by (rule find_by_id_store_frame [OF surjective_pairing])
  show "snd (get_lab_by_path_store courses course_id lab_id \<sigma>) = \<sigma>"
    by (rule get_lab_by_path_store_frame [OF surjective_pairing])
  show "snd (get_task_by_path_store courses course_id lab_id task_id \<sigma>) = \<sigma>"
    by (rule get_task_by_path_store_frame [OF surjective_pairing])
  show "snd (get_step_by_path_store courses course_id lab_id task_id step_id \<sigma>) = \<sigma>"
    by (rule get_step_by_path_store_frame [OF surjective_pairing])
  show "snd (get_item_by_id_dfs_iterative_store courses item_id order \<sigma>) = \<sigma>"
    by (rule dfs_iterative_store_frame [OF surjective_pairing])
  show "snd (get_item_by_id_dfs_recursive_store limit items item_id order \<sigma>) = \<sigma>"
    by (rule dfs_recursive_store_frame [OF surjective_pairing])
qed

text \<open>
  C9. When either search returns a \<open>FoundItem\<close>, the id of its item is the searched id
  and \<open>visited_nodes\<close> lies between 1 and the number of nodes of the forest searched.
\<close>

theorem dfs_found_item_invariant:
  "(get_item_by_id_dfs_iterative courses item_id order = Some found \<longrightarrow>
      ident (item found) = item_id \<and> 1 \<le> visited_nodes found
      \<and> visited_nodes found \<le> int (forest_nodes courses))
   \<and> (get_item_by_id_dfs_recursive items item_id order = Some found \<longrightarrow>
      ident (item found) = item_id \<and> 1 \<le> visited_nodes found
      \<and> visited_nodes found \<le> int (total_nodes items))"
proof (rule conjI; rule impI)
  assume a: "get_item_by_id_dfs_iterative courses item_id order = Some found"
  then have PreOrder: "order = PreOrder"
    by (cases order) (simp_all add: get_item_by_id_dfs_iterative_def dfs_iterative_run_def)
  have "fst (get_item_by_id_dfs_recursive_inner (map CourseItem courses) item_id PreOrder 0)
      = Some found"
    using a PreOrder
    by (simp add: get_item_by_id_dfs_iterative_def dfs_iterative_run_def iter_courses_inner)
  then obtain v' where
    "get_item_by_id_dfs_recursive_inner (map CourseItem courses) item_id PreOrder 0
       = (Some found, v')"
    by (cases "get_item_by_id_dfs_recursive_inner (map CourseItem courses) item_id PreOrder 0")
       auto
  from inner_bounds [OF this]
  show "ident (item found) = item_id \<and> 1 \<le> visited_nodes found
      \<and> visited_nodes found \<le> int (forest_nodes courses)"
    by simp
next
  assume a: "get_item_by_id_dfs_recursive items item_id order = Some found"
  then have "fst (get_item_by_id_dfs_recursive_inner items item_id order 0) = Some found"
    by (simp add: get_item_by_id_dfs_recursive_def dfs_recursive_run_def)
  then obtain v' where
    "get_item_by_id_dfs_recursive_inner items item_id order 0 = (Some found, v')"
    by (cases "get_item_by_id_dfs_recursive_inner items item_id order 0") auto
  from inner_bounds [OF this]
  show "ident (item found) = item_id \<and> 1 \<le> visited_nodes found
      \<and> visited_nodes found \<le> int (total_nodes items)"
    by simp
qed

theorem dfs_found_item_invariant_witness:
  "(get_item_by_id_dfs_iterative
       [Course ''C1'' [Lab ''L1'' [Task ''T1'' [Step ''S1'']]], Course ''C2'' [Lab ''L2'' []]]
       ''L2'' PreOrder = Some (FoundItem (LabItem (Lab ''L2'' [])) 6)
    \<and> ident (item (FoundItem (LabItem (Lab ''L2'' [])) 6)) = ''L2''
    \<and> 1 \<le> visited_nodes (FoundItem (LabItem (Lab ''L2'' [])) 6)
    \<and> visited_nodes (FoundItem (LabItem (Lab ''L2'' [])) 6) \<le> int (forest_nodes
       [Course ''C1'' [Lab ''L1'' [Task ''T1'' [Step ''S1'']]], Course ''C2'' [Lab ''L2'' []]]))
   \<and> (get_item_by_id_dfs_recursive
       [TaskItem (Task ''T1'' [Step ''S1'', Step ''S2'']), StepItem (Step ''S3'')]
       ''T1'' PostOrder = Some (FoundItem (TaskItem (Task ''T1'' [Step ''S1'', Step ''S2''])) 3)
    \<and> ident (item (FoundItem (TaskItem (Task ''T1'' [Step ''S1'', Step ''S2''])) 3)) = ''T1''
    \<and> 1 \<le> visited_nodes (FoundItem (TaskItem (Task ''T1'' [Step ''S1'', Step ''S2''])) 3)
    \<and> visited_nodes (FoundItem (TaskItem (Task ''T1'' [Step ''S1'', Step ''S2''])) 3)
         \<le> int (total_nodes
       [TaskItem (Task ''T1'' [Step ''S1'', Step ''S2'']), StepItem (Step ''S3'')]))"
proof -
  let ?F = "[Course ''C1'' [Lab ''L1'' [Task ''T1'' [Step ''S1'']]], Course ''C2'' [Lab ''L2'' []]]"
  let ?f1 = "FoundItem (LabItem (Lab ''L2'' [])) 6"
  let ?I = "[TaskItem (Task ''T1'' [Step ''S1'', Step ''S2'']), StepItem (Step ''S3'')]"
  let ?f2 = "FoundItem (TaskItem (Task ''T1'' [Step ''S1'', Step ''S2''])) 3"
  have h1: "get_item_by_id_dfs_iterative ?F ''L2'' PreOrder = Some ?f1"
    by (simp add: get_item_by_id_dfs_iterative_def dfs_iterative_run_def)
  have h2: "get_item_by_id_dfs_recursive ?I ''T1'' PostOrder = Some ?f2"
    by (simp add: get_item_by_id_dfs_recursive_def dfs_recursive_run_def
          get_item_by_id_dfs_recursive_inner.simps(2))
  note c1 = dfs_found_item_invariant [of ?F "''L2''" PreOrder ?f1 ?I, THEN conjunct1, THEN mp, OF h1]
  note c2 = dfs_found_item_invariant [of ?F "''T1''" PostOrder ?f2 ?I, THEN conjunct2, THEN mp, OF h2]
  from h1 c1 h2 c2 show ?thesis by blast
qed

text \<open>
  C10. The recursive search is a total function, and for both orders four nested
  activations suffice on every list of items: the depth-bounded search with budget 4
  returns, with the result of the unbounded one. The counter grows by at most the number
  of nodes, so no node is counted twice.
\<close>

theorem dfs_recursive_depth_four:
  "dfs_bounded 4 items item_id order v =
     Some (get_item_by_id_dfs_recursive_inner items item_id order v)
   \<and> v \<le> snd (get_item_by_id_dfs_recursive_inner items item_id order v)
   \<and> snd (get_item_by_id_dfs_recursive_inner items item_id order v)
       \<le> v + int (total_nodes items)"
proof -
  have "dfs_bounded 4 items item_id order v =
     Some (get_item_by_id_dfs_recursive_inner items item_id order v)"
    using bounded_items [of 0 items item_id order v] by (simp add: numeral_eq_Suc)
  moreover have "v \<le> snd (get_item_by_id_dfs_recursive_inner items item_id order v)
   \<and> snd (get_item_by_id_dfs_recursive_inner items item_id order v)
       \<le> v + int (total_nodes items)"
    using inner_bounds [of items item_id order v
        "fst (get_item_by_id_dfs_recursive_inner items item_id order v)"
        "snd (get_item_by_id_dfs_recursive_inner items item_id order v)"]
    by simp
  ultimately show ?thesis by (rule conjI)
qed

end
